theory Spec2Isabelle
  imports Main "HOL-Library.Multiset"
begin

section \<open>JavaScript values\<close>

text \<open>
  Strings are character lists; a character stands for a UTF-16 code unit below 256, so
  the strings of the model are the strings over Latin-1. A thrown value is a system error
  of the file-system layer, carrying its errno code, or a plain Error object carrying its
  message. A computation that may throw returns a sum; the left injection is the thrown
  value.

  A Number is a double. The scripts only compute Numbers from integers (parseInt and the
  difference of two of its results), so a Number here is NaN, an infinity, or an integer
  that a double represents; \<open>toNumber\<close> rounds an integer to the nearest double, ties
  to the even significand, and to an infinity from \<open>2 ^ 1024\<close> on. The sign of zero
  is not kept: no script depends on it.
\<close>

datatype number = NaN | Finite int | Infinity | NegInfinity

datatype errno = ENOENT | ENOTDIR | EACCES

datatype js_error = SystemError errno | Error string

definition error_code :: "js_error \<Rightarrow> errno option" where
  "error_code e = (case e of SystemError c \<Rightarrow> Some c | Error _ \<Rightarrow> None)"

definition MAX_SAFE_INTEGER :: nat where
  "MAX_SAFE_INTEGER = 2 ^ 53 - 1"

fun bitLength :: "nat \<Rightarrow> nat" where
  "bitLength n = (if n = 0 then 0 else Suc (bitLength (n div 2)))"

declare bitLength.simps [simp del]

text \<open>The double nearest to a natural number: below \<open>2 ^ 53\<close> the number itself,
  above it the 53 leading bits, rounded to nearest and to even on a tie.\<close>

definition roundToDouble :: "nat \<Rightarrow> nat" where
  "roundToDouble n =
     (if n < 2 ^ 53 then n
      else (let e = bitLength n - 53;
                q = n div 2 ^ e;
                r = n mod 2 ^ e;
                half = 2 ^ (e - 1);
                q' = (if half < r \<or> (r = half \<and> odd q) then q + 1 else q)
            in q' * 2 ^ e))"

definition toNumber :: "int \<Rightarrow> number" where
  "toNumber i =
     (let m = roundToDouble (nat \<bar>i\<bar>)
      in if 2 ^ 1024 \<le> m then (if i < 0 then NegInfinity else Infinity)
         else Finite (if i < 0 then - int m else int m))"

definition isDigit :: "char \<Rightarrow> bool" where
  "isDigit c = (c \<in> set ''0123456789'')"

definition digitValue :: "char \<Rightarrow> nat" where
  "digitValue c = of_char c - 48"

text \<open>White space as \<open>trim\<close>, \<open>parseInt\<close> and the regular expression class \<open>\s\<close> see it
  (the same set for all three). Below 256 these are tab, line feed, vertical tab, form
  feed, carriage return, space and the no-break space U+00A0.\<close>

definition isSpace :: "char \<Rightarrow> bool" where
  "isSpace c =
     (c \<in> set [CHR 0x09, CHR 0x0A, CHR 0x0B, CHR 0x0C, CHR 0x0D, CHR '' '', CHR 0xA0])"

text \<open>\<open>toLowerCase\<close> on one code unit below 256: the letters A to Z, and the accented
  capitals U+00C0 to U+00DE without the multiplication sign U+00D7.\<close>

definition toLowerChar :: "char \<Rightarrow> char" where
  "toLowerChar c =
     (case map_of (zip ''ABCDEFGHIJKLMNOPQRSTUVWXYZ'' ''abcdefghijklmnopqrstuvwxyz'') c of
        Some l \<Rightarrow> l
      | None \<Rightarrow>
          if (192::nat) \<le> of_char c \<and> of_char c \<le> (222::nat) \<and> of_char c \<noteq> (215::nat)
          then char_of (of_char c + (32::nat))
          else c)"

definition toLowerCase :: "string \<Rightarrow> string" where
  "toLowerCase s = map toLowerChar s"

definition endsWith :: "string \<Rightarrow> string \<Rightarrow> bool" where
  "endsWith s suf = (length suf \<le> length s \<and> drop (length s - length suf) s = suf)"

definition startsWith :: "string \<Rightarrow> string \<Rightarrow> bool" where
  "startsWith s pre = (take (length pre) s = pre)"

definition decimal :: "string \<Rightarrow> nat" where
  "decimal ds = foldl (\<lambda>acc c. 10 * acc + digitValue c) 0 ds"

text \<open>\<open>parseInt(s, 10)\<close>: leading white space is skipped, one sign is read, then the
  longest run of decimal digits; with no digit the result is NaN, otherwise the Number
  for the signed integer that the digits denote. (Beyond twenty significant digits the
  language allows an engine to read the further digits as zeros; the model rounds the
  exact integer.)\<close>

definition parseInt :: "string \<Rightarrow> number" where
  "parseInt s =
     (let t = dropWhile isSpace s;
          negative = (t \<noteq> [] \<and> hd t = CHR ''-'');
          u = (if t \<noteq> [] \<and> (hd t = CHR ''-'' \<or> hd t = CHR ''+'') then tl t else t);
          z = takeWhile isDigit u
      in if z = [] then NaN
         else toNumber ((if negative then - 1 else 1) * int (decimal z)))"

text \<open>The difference of two Numbers: the exact difference of two doubles, rounded; the
  difference of two equal infinities is NaN.\<close>

fun jsMinus :: "number \<Rightarrow> number \<Rightarrow> number" where
  "jsMinus (Finite x) (Finite y) = toNumber (x - y)"
| "jsMinus NaN b = NaN"
| "jsMinus a NaN = NaN"
| "jsMinus Infinity Infinity = NaN"
| "jsMinus NegInfinity NegInfinity = NaN"
| "jsMinus Infinity b = Infinity"
| "jsMinus NegInfinity b = NegInfinity"
| "jsMinus a Infinity = NegInfinity"
| "jsMinus a NegInfinity = Infinity"

text \<open>\<open>x || d\<close> for a string or undefined \<open>x\<close>: the empty string is falsy.\<close>

definition orString :: "string option \<Rightarrow> string \<Rightarrow> string" where
  "orString x d = (case x of None \<Rightarrow> d | Some s \<Rightarrow> if s = [] then d else s)"

section \<open>ocr.js: listing the screenshots\<close>

definition screenshotsDir :: string where
  "screenshotsDir = ''screenshots''"

text \<open>\<open>a.match(/^(\d+)/)?.[1]\<close>: the longest non-empty run of digits at the start of the
  name, undefined when the name does not start with a digit.\<close>

definition matchDigits :: "string \<Rightarrow> string option" where
  "matchDigits a = (let ds = takeWhile isDigit a in if ds = [] then None else Some ds)"

definition numericalSort :: "string \<Rightarrow> string \<Rightarrow> number" where
  "numericalSort a b =
     (let numA = parseInt (orString (matchDigits a) ''0'');
          numB = parseInt (orString (matchDigits b) ''0'')
      in jsMinus numA numB)"

text \<open>\<open>Array.prototype.sort\<close> with a comparator is stable, and a comparator result that is
  NaN counts as zero. For a consistent comparator the result is determined by these two
  facts; it is computed here by stable insertion.\<close>

definition comesAfter :: "('a \<Rightarrow> 'a \<Rightarrow> number) \<Rightarrow> 'a \<Rightarrow> 'a \<Rightarrow> bool" where
  "comesAfter cmp x y =
     (case cmp x y of
        NaN \<Rightarrow> False
      | Finite v \<Rightarrow> 0 < v
      | Infinity \<Rightarrow> True
      | NegInfinity \<Rightarrow> False)"

fun insertBy :: "('a \<Rightarrow> 'a \<Rightarrow> number) \<Rightarrow> 'a \<Rightarrow> 'a list \<Rightarrow> 'a list" where
  "insertBy cmp x [] = [x]"
| "insertBy cmp x (y # ys) =
     (if comesAfter cmp x y then y # insertBy cmp x ys else x # y # ys)"

fun sortBy :: "('a \<Rightarrow> 'a \<Rightarrow> number) \<Rightarrow> 'a list \<Rightarrow> 'a list" where
  "sortBy cmp [] = []"
| "sortBy cmp (x # xs) = insertBy cmp x (sortBy cmp xs)"

text \<open>What \<open>fs.readdir\<close> finds at the configured path.\<close>

datatype directory = Absent | NotADirectory | NoPermission | Entries "string list"

definition readdir :: "directory \<Rightarrow> js_error + string list" where
  "readdir dir =
     (case dir of
        Absent \<Rightarrow> Inl (SystemError ENOENT)
      | NotADirectory \<Rightarrow> Inl (SystemError ENOTDIR)
      | NoPermission \<Rightarrow> Inl (SystemError EACCES)
      | Entries names \<Rightarrow> Inr names)"

definition isPng :: "string \<Rightarrow> bool" where
  "isPng file = endsWith (toLowerCase file) ''.png''"

definition emptyError :: js_error where
  "emptyError = Error ''No .png files found in the screenshots directory.''"

definition notFoundError :: js_error where
  "notFoundError = Error (''Screenshots directory not found at '' @ screenshotsDir)"

text \<open>The body of the try block first, then the catch clause, which replaces an ENOENT
  error and rethrows every other one (the Empty error included).\<close>

definition getScreenshotFiles :: "directory \<Rightarrow> js_error + string list" where
  "getScreenshotFiles dir =
     (let attempt =
        (case readdir dir of
           Inl e \<Rightarrow> Inl e
         | Inr allFiles \<Rightarrow>
             (let screenshotFiles = sortBy numericalSort (filter isPng allFiles)
              in if length screenshotFiles = 0 then Inl emptyError
                 else Inr screenshotFiles))
      in case attempt of
           Inl error \<Rightarrow>
             if error_code error = Some ENOENT then Inl notFoundError else Inl error
         | Inr files \<Rightarrow> Inr files)"

text \<open>The leading integer of a file name; a name without one has the key 0.\<close>

definition leadingInt :: "string \<Rightarrow> nat" where
  "leadingInt f = (case matchDigits f of None \<Rightarrow> 0 | Some ds \<Rightarrow> decimal ds)"

section \<open>ocr.js: the Transcriber\<close>

text \<open>
  The world outside the scripts: the screenshots directory, the content of the files in
  it, the inference service, the document library, whether the output files can be
  written, and the two environment variables that select a model. The service receives
  the model name and the image (its base64 encoding and the fixed prompt are the same on
  every call and are left inside the service); its answer is the value of
  \<open>response?.message?.content\<close>, \<open>None\<close> when that is undefined.

  Three things of the document library pdf-lib are parameters of the world: its PNG
  decoder; which texts the encoding of a standard font covers (drawing any other text
  throws); and the member Invisible of an export named PDFRenderingMode, \<open>None\<close> when
  the library exports no such name.
\<close>

record png_image =
  png_width :: nat
  png_height :: nat

datatype font = Helvetica | TimesRoman

record world =
  screenshots :: directory
  readFile :: "string \<Rightarrow> js_error + string"
  chat :: "string \<Rightarrow> string \<Rightarrow> js_error + string option"
  embedPng :: "string \<Rightarrow> js_error + png_image"
  encodable :: "font \<Rightarrow> string \<Rightarrow> bool"
  PDFRenderingMode :: "nat option"
  writable :: bool
  OLLAMA_MODEL :: "string option"
  OLLAMA_VISION_MODEL :: "string option"

definition defaultOllamaModel :: "world \<Rightarrow> string" where
  "defaultOllamaModel w = orString (OLLAMA_MODEL w) ''gemma3:12b-it-qat''"

definition fullImagePath :: "string \<Rightarrow> string" where
  "fullImagePath imageFilename = screenshotsDir @ ''/'' @ imageFilename"

definition fence :: string where
  "fence = [CHR 0x60, CHR 0x60, CHR 0x60]"

definition trim :: "string \<Rightarrow> string" where
  "trim s = rev (dropWhile isSpace (rev (dropWhile isSpace s)))"

text \<open>The first replace: at the start of the string, a fence, the word markdown if it
  is there, and all the white space that follows.\<close>

definition stripOpeningFence :: "string \<Rightarrow> string" where
  "stripOpeningFence s =
     (if startsWith s fence
      then (let r = drop 3 s;
                r' = (if startsWith r ''markdown'' then drop 8 r else r)
            in dropWhile isSpace r')
      else s)"

text \<open>The second replace: the leftmost fence that only white space separates from the
  end of the string is removed, with that white space.\<close>

fun stripClosingFence :: "string \<Rightarrow> string" where
  "stripClosingFence [] = []"
| "stripClosingFence (c # cs) =
     (if startsWith (c # cs) fence \<and> list_all isSpace (drop 3 (c # cs)) then []
      else c # stripClosingFence cs)"

definition cleanup :: "string \<Rightarrow> string" where
  "cleanup content = stripClosingFence (stripOpeningFence (trim content))"

text \<open>The try block of performOcrOnImage, then the function with its catch clause.\<close>

definition ocrAttempt :: "world \<Rightarrow> string \<Rightarrow> string \<Rightarrow> js_error + string option" where
  "ocrAttempt w imageFilename model =
     (case readFile w (fullImagePath imageFilename) of
        Inl e \<Rightarrow> Inl e
      | Inr imageBuffer \<Rightarrow>
          (case chat w model imageBuffer of
             Inl e \<Rightarrow> Inl e
           | Inr None \<Rightarrow> Inr None
           | Inr (Some content) \<Rightarrow>
               if content \<noteq> [] then Inr (Some (cleanup content)) else Inr None))"

definition performOcrOnImage :: "world \<Rightarrow> string \<Rightarrow> string \<Rightarrow> js_error + string option" where
  "performOcrOnImage w imageFilename model =
     (case ocrAttempt w imageFilename model of
        Inl imageError \<Rightarrow> Inr None
      | Inr transcribedText \<Rightarrow> Inr transcribedText)"

section \<open>The output files\<close>

text \<open>A document is the list of its pages; a page has its dimensions and records, in
  order, the images and the texts painted on it. A painted text has the PDF text
  rendering mode it was painted in: 0 fills the glyphs, 3 paints nothing.\<close>

record drawn_image =
  drawn_png :: png_image
  image_x :: nat
  image_y :: nat
  image_width :: nat
  image_height :: nat

record drawn_text =
  text_content :: string
  text_x :: nat
  text_y :: nat
  text_font :: font
  text_size :: nat
  painted_mode :: nat

record pdf_page =
  page_width :: nat
  page_height :: nat
  images :: "drawn_image list"
  texts :: "drawn_text list"

text \<open>The two output files; \<open>None\<close> is a file that does not exist.\<close>

record disk =
  ocr_md :: "string option"
  out_pdf :: "pdf_page list option"

section \<open>ocr.js: the text assembler\<close>

text \<open>Writing and appending to the text file throw when the file cannot be written and
  leave the disk as it was.\<close>

definition writeMarkdown :: "world \<Rightarrow> string \<Rightarrow> disk \<Rightarrow> js_error + disk" where
  "writeMarkdown w s d =
     (if writable w then Inr (d\<lparr>ocr_md := Some s\<rparr>) else Inl (SystemError EACCES))"

definition appendMarkdown :: "world \<Rightarrow> string \<Rightarrow> disk \<Rightarrow> js_error + disk" where
  "appendMarkdown w s d =
     (if writable w
      then Inr (d\<lparr>ocr_md := Some ((case ocr_md d of None \<Rightarrow> [] | Some old \<Rightarrow> old) @ s)\<rparr>)
      else Inl (SystemError EACCES))"

definition blankLine :: string where
  "blankLine = ''\<newline>\<newline>''"

definition markdownHeader :: string where
  "markdownHeader = ''# Transcription Results'' @ blankLine"

definition failureMarker :: "string \<Rightarrow> string" where
  "failureMarker filename = blankLine @ ''[OCR Warning/Error for '' @ filename @ '']'' @ blankLine"

text \<open>The loop over the listing. An exception inside it ends the loop and leaves on the
  disk what was written before.\<close>

fun appendPages :: "world \<Rightarrow> string list \<Rightarrow> disk \<Rightarrow> disk \<times> js_error option" where
  "appendPages w [] d = (d, None)"
| "appendPages w (filename # rest) d =
     (case performOcrOnImage w filename (defaultOllamaModel w) of
        Inl e \<Rightarrow> (d, Some e)
      | Inr transcribedText \<Rightarrow>
          (let outputChunk =
                 (case transcribedText of
                    Some t \<Rightarrow> t @ blankLine
                  | None \<Rightarrow> failureMarker filename)
           in case appendMarkdown w outputChunk d of
                Inl e \<Rightarrow> (d, Some e)
              | Inr d' \<Rightarrow> appendPages w rest d'))"

definition generateMarkdownFile :: "world \<Rightarrow> disk \<Rightarrow> disk" where
  "generateMarkdownFile w d =
     (case getScreenshotFiles (screenshots w) of
        Inl e \<Rightarrow> d
      | Inr screenshotFiles \<Rightarrow>
          (case writeMarkdown w markdownHeader d of
             Inl e \<Rightarrow> d
           | Inr d' \<Rightarrow> fst (appendPages w screenshotFiles d')))"

section \<open>pdf.js: the document assembler\<close>

text \<open>The operations of the document library that the scripts call. \<open>addPage\<close> puts a
  new page at the end of the document and \<open>drawImage\<close> paints on it; both are total.
  \<open>drawText\<close> reads the options x, y, font and size. It has no option named
  renderingMode: that entry of the options object is not read, and the text is painted
  in the fill mode, over the image. It throws when the encoding of the font does not
  cover the text.\<close>

definition ollamaModelForPdf :: "world \<Rightarrow> string" where
  "ollamaModelForPdf w = orString (OLLAMA_VISION_MODEL w) ''llama3.2-vision''"

definition Fill :: nat where
  "Fill = 0"

definition Invisible :: nat where
  "Invisible = 3"

record text_options =
  option_x :: nat
  option_y :: nat
  option_font :: font
  option_size :: nat
  option_renderingMode :: nat

definition scale :: "png_image \<Rightarrow> nat \<Rightarrow> nat \<times> nat" where
  "scale pdfImage factor = (png_width pdfImage * factor, png_height pdfImage * factor)"

definition addPage :: "nat \<times> nat \<Rightarrow> pdf_page" where
  "addPage dims = \<lparr>page_width = fst dims, page_height = snd dims, images = [], texts = []\<rparr>"

definition drawImage :: "pdf_page \<Rightarrow> drawn_image \<Rightarrow> pdf_page" where
  "drawImage page options = page\<lparr>images := images page @ [options]\<rparr>"

definition drawText :: "world \<Rightarrow> pdf_page \<Rightarrow> string \<Rightarrow> text_options \<Rightarrow> js_error + pdf_page" where
  "drawText w page t options =
     (if encodable w (option_font options) t
      then Inr (page\<lparr>texts := texts page @
             [\<lparr>text_content = t, text_x = option_x options, text_y = option_y options,
               text_font = option_font options, text_size = option_size options,
               painted_mode = Fill\<rparr>]\<rparr>)
      else Inl (Error ''the font cannot encode the text''))"

definition writePdf :: "world \<Rightarrow> pdf_page list \<Rightarrow> disk \<Rightarrow> js_error + disk" where
  "writePdf w pdfDoc d =
     (if writable w then Inr (d\<lparr>out_pdf := Some pdfDoc\<rparr>) else Inl (SystemError EACCES))"

text \<open>The variant that saves once. The try block of one iteration returns the document
  and the page counter as it leaves them, and the error if it threw: a throw of
  \<open>drawText\<close> comes after the page is in the document. The catch clause of the loop goes
  on to the next file. The script names PDFRenderingMode in its import declaration, so
  it runs only where the library exports that name; \<open>invisible\<close> is the value it then
  passes as the rendering mode.\<close>

fun tryPage ::
  "world \<Rightarrow> nat \<Rightarrow> string \<Rightarrow> pdf_page list \<times> nat
     \<Rightarrow> (pdf_page list \<times> nat) \<times> js_error option" where
  "tryPage w invisible filename (pdfDoc, pagesAdded) =
     (case performOcrOnImage w filename (ollamaModelForPdf w) of
        Inl e \<Rightarrow> ((pdfDoc, pagesAdded), Some e)
      | Inr ocrText \<Rightarrow>
          (case readFile w (fullImagePath filename) of
             Inl e \<Rightarrow> ((pdfDoc, pagesAdded), Some e)
           | Inr imageBytes \<Rightarrow>
               (case embedPng w imageBytes of
                  Inl e \<Rightarrow> ((pdfDoc, pagesAdded), Some e)
                | Inr pdfImage \<Rightarrow>
                    (let imgDims = scale pdfImage 1;
                         page = addPage imgDims;
                         page = drawImage page
                           \<lparr>drawn_png = pdfImage, image_x = 0, image_y = 0,
                            image_width = fst imgDims, image_height = snd imgDims\<rparr>
                     in case ocrText of
                          None \<Rightarrow> ((pdfDoc @ [page], pagesAdded + 1), None)
                        | Some t \<Rightarrow>
                            if t \<noteq> [] \<and> 0 < length (trim t)
                            then (case drawText w page t
                                    \<lparr>option_x = 5, option_y = 5, option_font = Helvetica,
                                     option_size = 6, option_renderingMode = invisible\<rparr> of
                                    Inl e \<Rightarrow> ((pdfDoc @ [page], pagesAdded + 1), Some e)
                                  | Inr page' \<Rightarrow> ((pdfDoc @ [page'], pagesAdded + 1), None))
                            else ((pdfDoc @ [page], pagesAdded + 1), None)))))"

fun pdfLoop ::
  "world \<Rightarrow> nat \<Rightarrow> string list \<Rightarrow> pdf_page list \<times> nat \<Rightarrow> pdf_page list \<times> nat" where
  "pdfLoop w invisible [] state = state"
| "pdfLoop w invisible (filename # rest) state =
     pdfLoop w invisible rest (fst (tryPage w invisible filename state))"

definition generateSearchablePdf :: "world \<Rightarrow> disk \<Rightarrow> disk" where
  "generateSearchablePdf w d =
     (case PDFRenderingMode w of
        None \<Rightarrow> d
      | Some invisible \<Rightarrow>
          (case getScreenshotFiles (screenshots w) of
             Inl e \<Rightarrow> d
           | Inr screenshotFiles \<Rightarrow>
               (case pdfLoop w invisible screenshotFiles ([], 0) of
                  (pdfDoc, pagesAdded) \<Rightarrow>
                    if pagesAdded = 0 then d
                    else (case writePdf w pdfDoc d of Inl saveError \<Rightarrow> d | Inr d' \<Rightarrow> d'))))"

text \<open>The variant that saves after every page: another font, size and position, the
  rendering mode written as the number 3, and the save inside the try block, after the
  drawing. When \<open>drawText\<close> throws, the page stays in the document and the save of that
  iteration does not happen.\<close>

fun tryPageIncremental ::
  "world \<Rightarrow> string \<Rightarrow> pdf_page list \<times> nat \<times> disk
     \<Rightarrow> (pdf_page list \<times> nat \<times> disk) \<times> js_error option" where
  "tryPageIncremental w filename (pdfDoc, pagesAdded, d) =
     (case performOcrOnImage w filename (ollamaModelForPdf w) of
        Inl e \<Rightarrow> ((pdfDoc, pagesAdded, d), Some e)
      | Inr ocrText \<Rightarrow>
          (case readFile w (fullImagePath filename) of
             Inl e \<Rightarrow> ((pdfDoc, pagesAdded, d), Some e)
           | Inr imageBytes \<Rightarrow>
               (case embedPng w imageBytes of
                  Inl e \<Rightarrow> ((pdfDoc, pagesAdded, d), Some e)
                | Inr pdfImage \<Rightarrow>
                    (let imgDims = scale pdfImage 1;
                         page = addPage imgDims;
                         page = drawImage page
                           \<lparr>drawn_png = pdfImage, image_x = 0, image_y = 0,
                            image_width = fst imgDims, image_height = snd imgDims\<rparr>;
                         drawn =
                           (case ocrText of
                              None \<Rightarrow> Inr page
                            | Some t \<Rightarrow>
                                if t \<noteq> [] \<and> 0 < length (trim t)
                                then drawText w page t
                                  \<lparr>option_x = 10, option_y = 10, option_font = TimesRoman,
                                   option_size = 8, option_renderingMode = 3\<rparr>
                                else Inr page)
                     in case drawn of
                          Inl e \<Rightarrow> ((pdfDoc @ [page], pagesAdded + 1, d), Some e)
                        | Inr page' \<Rightarrow>
                            (case writePdf w (pdfDoc @ [page']) d of
                               Inl e \<Rightarrow> ((pdfDoc @ [page'], pagesAdded + 1, d), Some e)
                             | Inr d' \<Rightarrow> ((pdfDoc @ [page'], pagesAdded + 1, d'), None))))))"

fun pdfLoopIncremental ::
  "world \<Rightarrow> string list \<Rightarrow> pdf_page list \<times> nat \<times> disk \<Rightarrow> pdf_page list \<times> nat \<times> disk" where
  "pdfLoopIncremental w [] state = state"
| "pdfLoopIncremental w (filename # rest) state =
     pdfLoopIncremental w rest (fst (tryPageIncremental w filename state))"

definition generateSearchablePdfIncremental :: "world \<Rightarrow> disk \<Rightarrow> disk" where
  "generateSearchablePdfIncremental w d =
     (case getScreenshotFiles (screenshots w) of
        Inl e \<Rightarrow> d
      | Inr screenshotFiles \<Rightarrow> snd (snd (pdfLoopIncremental w screenshotFiles ([], 0, d))))"

text \<open>The image of a listed file, when the file can be read and the library can embed
  it; \<open>None\<close> when either step throws.\<close>

definition embedded :: "world \<Rightarrow> string \<Rightarrow> png_image option" where
  "embedded w filename =
     (case readFile w (fullImagePath filename) of
        Inl e \<Rightarrow> None
      | Inr imageBytes \<Rightarrow>
          (case embedPng w imageBytes of Inl e \<Rightarrow> None | Inr pdfImage \<Rightarrow> Some pdfImage))"

section \<open>move-shot.js: start-up\<close>

text \<open>The environment variables the script reads, and what happens before the main
  function runs: the process exits with a status, or the script goes on to create the
  session directory and launch the browser with the target and the delay.\<close>

record environment =
  TARGET_URL :: "string option"
  DELAY_MS :: "string option"

datatype startup = Exit nat | Launch string number

definition envToString :: "string option \<Rightarrow> string" where
  "envToString v = (case v of None \<Rightarrow> ''undefined'' | Some s \<Rightarrow> s)"

text \<open>\<open>n || d\<close> for a Number \<open>n\<close>: NaN and zero are falsy.\<close>

definition orNumber :: "number \<Rightarrow> int \<Rightarrow> number" where
  "orNumber n d = (if n = NaN \<or> n = Finite 0 then Finite d else n)"

definition isNaN :: "number \<Rightarrow> bool" where
  "isNaN n = (n = NaN)"

definition lessThanZero :: "number \<Rightarrow> bool" where
  "lessThanZero n = (case n of Finite k \<Rightarrow> k < 0 | NegInfinity \<Rightarrow> True | _ \<Rightarrow> False)"

definition delayMs :: "environment \<Rightarrow> number" where
  "delayMs env = orNumber (parseInt (envToString (DELAY_MS env))) 1000"

definition inputValidation :: "environment \<Rightarrow> startup" where
  "inputValidation env =
     (case TARGET_URL env of
        None \<Rightarrow> Exit 1
      | Some targetUrl \<Rightarrow>
          if targetUrl = [] then Exit 1
          else if isNaN (delayMs env) \<or> lessThanZero (delayMs env) then Exit 1
          else Launch targetUrl (delayMs env))"

section \<open>Predicates and example worlds for the theorems\<close>

definition startsWithSpace :: "string \<Rightarrow> bool" where
  "startsWithSpace s = (s \<noteq> [] \<and> isSpace (hd s))"

definition endsWithSpace :: "string \<Rightarrow> bool" where
  "endsWithSpace s = (s \<noteq> [] \<and> isSpace (last s))"

definition emptyDisk :: disk where
  "emptyDisk = \<lparr>ocr_md = None, out_pdf = None\<rparr>"

text \<open>A world with three screenshots and one other file. The service answers the
  first image with padded text, fails on the second and answers the third. The fonts
  can encode every text without the control character U+0001, and the library exports no
  PDFRenderingMode.\<close>

definition exampleWorld :: world where
  "exampleWorld =
     \<lparr>screenshots = Entries [''3.png'', ''notes.txt'', ''1.png'', ''2.png''],
      readFile = (\<lambda>path.
        if path = ''screenshots/1.png'' then Inr ''image one''
        else if path = ''screenshots/2.png'' then Inr ''image two''
        else if path = ''screenshots/3.png'' then Inr ''image three''
        else Inl (SystemError ENOENT)),
      chat = (\<lambda>model imageBytes.
        if imageBytes = ''image one'' then Inr (Some '' Hello\<newline>'')
        else if imageBytes = ''image two'' then Inl (Error ''timeout'')
        else Inr (Some ''World'')),
      embedPng = (\<lambda>imageBytes. Inr \<lparr>png_width = 800, png_height = 600\<rparr>),
      encodable = (\<lambda>fnt t. CHR 0x01 \<notin> set t),
      PDFRenderingMode = None,
      writable = True,
      OLLAMA_MODEL = None,
      OLLAMA_VISION_MODEL = None\<rparr>"

text \<open>Three services that answer with fenced text: the closing fence on a line of its
  own; a second fence right after the opening one; and a fenced text with white space
  around the fences.\<close>

definition fencedWorld :: world where
  "fencedWorld = exampleWorld\<lparr>chat := (\<lambda>model imageBytes.
     Inr (Some (fence @ ''markdown\<newline>Hello\<newline>'' @ fence)))\<rparr>"

definition doubleFenceWorld :: world where
  "doubleFenceWorld = exampleWorld\<lparr>chat := (\<lambda>model imageBytes.
     Inr (Some (fence @ '' '' @ fence @ ''x'')))\<rparr>"

definition paddedFenceWorld :: world where
  "paddedFenceWorld = exampleWorld\<lparr>chat := (\<lambda>model imageBytes.
     Inr (Some (''  '' @ fence @ ''markdown'' @ ''\<newline>\<newline>'' @ ''Hello, world.'' @ fence
                @ ''\<newline>'')))\<rparr>"

text \<open>The chunk that the text assembler appends for one page.\<close>

definition pageChunk :: "world \<Rightarrow> string \<Rightarrow> string" where
  "pageChunk w filename =
     (case performOcrOnImage w filename (defaultOllamaModel w) of
        Inr (Some t) \<Rightarrow> t @ blankLine
      | _ \<Rightarrow> failureMarker filename)"

text \<open>A page shows an image when it has the image's dimensions and the image is the
  one thing drawn on it, at the origin and at its own size.\<close>

definition showsImage :: "pdf_page \<Rightarrow> png_image \<Rightarrow> bool" where
  "showsImage page img =
     (page_width page = png_width img \<and> page_height page = png_height img
      \<and> images page = [\<lparr>drawn_png = img, image_x = 0, image_y = 0,
                         image_width = png_width img, image_height = png_height img\<rparr>])"

text \<open>The transcription of a listed file fits a font when it is null, blank, or a text
  that the font can encode: then the iteration for the file does not throw in
  \<open>drawText\<close>.\<close>

definition textFits :: "world \<Rightarrow> font \<Rightarrow> string \<Rightarrow> bool" where
  "textFits w fnt filename =
     (case performOcrOnImage w filename (ollamaModelForPdf w) of
        Inr (Some t) \<Rightarrow> trim t = [] \<or> encodable w fnt t
      | _ \<Rightarrow> True)"

text \<open>The page that the iteration for a listed file leaves in the document, if any: the
  image, and the text when it is not blank and the font can encode it.\<close>

definition leftPage :: "world \<Rightarrow> text_options \<Rightarrow> string \<Rightarrow> pdf_page option" where
  "leftPage w options filename =
     (case embedded w filename of
        None \<Rightarrow> None
      | Some img \<Rightarrow>
          (let page = drawImage (addPage (scale img 1))
                 \<lparr>drawn_png = img, image_x = 0, image_y = 0,
                  image_width = fst (scale img 1), image_height = snd (scale img 1)\<rparr>
           in case performOcrOnImage w filename (ollamaModelForPdf w) of
                Inr (Some t) \<Rightarrow>
                  if trim t \<noteq> [] \<and> encodable w (option_font options) t
                  then Some (page\<lparr>texts :=
                    [\<lparr>text_content = t, text_x = option_x options, text_y = option_y options,
                      text_font = option_font options, text_size = option_size options,
                      painted_mode = Fill\<rparr>]\<rparr>)
                  else Some page
              | _ \<Rightarrow> Some page))"

text \<open>The example world again: with a second screenshot that is not a PNG file; with a
  directory that holds no screenshot; with a transcription of the third page that holds
  the control character U+0001; and with a library that exports PDFRenderingMode.\<close>

definition corruptWorld :: world where
  "corruptWorld = exampleWorld\<lparr>embedPng := (\<lambda>imageBytes.
     if imageBytes = ''image two'' then Inl (Error ''not a PNG file'')
     else Inr \<lparr>png_width = 800, png_height = 600\<rparr>)\<rparr>"




definition corruptExportingWorld :: world where
  "corruptExportingWorld = corruptWorld\<lparr>PDFRenderingMode := Some 3\<rparr>"

section \<open>Lemmas on sorting and the listing\<close>

lemma mset_insertBy: "mset (insertBy cmp x xs) = add_mset x (mset xs)"
  by (induction xs) simp_all

lemma mset_sortBy: "mset (sortBy cmp xs) = mset xs"
  by (induction xs) (simp_all add: mset_insertBy)

lemma length_sortBy: "length (sortBy cmp xs) = length xs"
proof -
  have "size (mset (sortBy cmp xs)) = size (mset xs)"
    by (simp add: mset_sortBy)
  then show ?thesis by simp
qed


lemma sortBy_Nil_iff: "sortBy cmp xs = [] \<longleftrightarrow> xs = []"
  using length_sortBy [of cmp xs] by (cases xs) auto





lemma toNumber_safe:
  assumes "\<bar>i\<bar> < 2 ^ 53"
  shows "toNumber i = Finite i"
proof -
  have m: "roundToDouble (nat \<bar>i\<bar>) = nat \<bar>i\<bar>"
    using assms by (simp add: roundToDouble_def nat_less_iff)
  have "nat \<bar>i\<bar> < 2 ^ 53" using assms by (simp add: nat_less_iff)
  also have "(2::nat) ^ 53 \<le> 2 ^ 1024" by (rule power_increasing) simp_all
  finally have "\<not> 2 ^ 1024 \<le> nat \<bar>i\<bar>" by simp
  then show ?thesis
    by (simp add: toNumber_def m Let_def)
qed

lemma safe_less: "n \<le> MAX_SAFE_INTEGER \<Longrightarrow> int n < 2 ^ 53"
proof -
  assume "n \<le> MAX_SAFE_INTEGER"
  then have "n < 2 ^ 53" by (simp add: MAX_SAFE_INTEGER_def)
  then have "int n < int (2 ^ 53)" by (simp only: of_nat_less_iff)
  then show ?thesis by simp
qed

lemma digit_not_space: "isDigit c \<Longrightarrow> \<not> isSpace c \<and> c \<noteq> CHR ''-'' \<and> c \<noteq> CHR ''+''"
  by (auto simp: isDigit_def isSpace_def)

lemma parseInt_digits:
  assumes "ds \<noteq> []" and "\<forall>c \<in> set ds. isDigit c"
  shows "parseInt ds = toNumber (int (decimal ds))"
proof -
  from assms obtain c cs where ds: "ds = c # cs" by (cases ds) auto
  with assms have c: "isDigit c" by simp
  have dw: "dropWhile isSpace ds = ds"
    using c digit_not_space ds by simp
  have tw: "takeWhile isDigit ds = ds"
    using assms(2) by simp
  have h: "hd ds \<noteq> CHR ''-''" "hd ds \<noteq> CHR ''+''"
    using digit_not_space [OF c] ds by simp_all
  show ?thesis
    using assms(1) by (simp add: parseInt_def Let_def dw tw h)
qed

lemma toNumber_zero: "toNumber 0 = Finite 0"
  by (rule toNumber_safe) simp

lemma parseInt_zero: "parseInt ''0'' = Finite 0"
proof -
  have "parseInt ''0'' = toNumber (int (decimal ''0''))"
    by (rule parseInt_digits) (simp_all add: isDigit_def)
  then show ?thesis
    by (simp add: decimal_def digitValue_def toNumber_zero)
qed

text \<open>The key that the comparator computes for a name is the Number of its leading
  integer.\<close>

lemma parseInt_prefix: "parseInt (orString (matchDigits a) ''0'') = toNumber (int (leadingInt a))"
proof (cases "takeWhile isDigit a = []")
  case True
  then show ?thesis
    by (simp add: matchDigits_def orString_def leadingInt_def parseInt_zero toNumber_zero)
next
  case False
  have "\<forall>c \<in> set (takeWhile isDigit a). isDigit c"
    by (meson set_takeWhileD)
  with False have "parseInt (takeWhile isDigit a) = toNumber (int (decimal (takeWhile isDigit a)))"
    by (rule parseInt_digits)
  with False show ?thesis
    by (simp add: matchDigits_def orString_def leadingInt_def)
qed

lemma parseInt_prefix_safe:
  assumes "leadingInt a \<le> MAX_SAFE_INTEGER"
  shows "parseInt (orString (matchDigits a) ''0'') = Finite (int (leadingInt a))"
  using safe_less [OF assms] by (simp add: parseInt_prefix toNumber_safe)

lemma numericalSort_safe:
  assumes "leadingInt a \<le> MAX_SAFE_INTEGER" and "leadingInt b \<le> MAX_SAFE_INTEGER"
  shows "numericalSort a b = Finite (int (leadingInt a) - int (leadingInt b))"
proof -
  have "\<bar>int (leadingInt a) - int (leadingInt b)\<bar> < 2 ^ 53"
    using safe_less [OF assms(1)] safe_less [OF assms(2)] by linarith
  then show ?thesis
    by (simp add: numericalSort_def parseInt_prefix_safe [OF assms(1)]
        parseInt_prefix_safe [OF assms(2)] toNumber_safe)
qed

lemma comesAfter_numericalSort:
  assumes "leadingInt a \<le> MAX_SAFE_INTEGER" and "leadingInt b \<le> MAX_SAFE_INTEGER"
  shows "comesAfter numericalSort a b \<longleftrightarrow> leadingInt b < leadingInt a"
  by (simp add: comesAfter_def numericalSort_safe [OF assms])

lemma getScreenshotFiles_Entries:
  "getScreenshotFiles (Entries names) =
     (if filter isPng names = [] then Inl emptyError
      else Inr (sortBy numericalSort (filter isPng names)))"
  by (simp add: getScreenshotFiles_def readdir_def emptyError_def error_code_def
      sortBy_Nil_iff Let_def)

lemmas eval_name = isPng_def endsWith_def toLowerCase_def toLowerChar_def
  leadingInt_def matchDigits_def isDigit_def decimal_def digitValue_def

section \<open>Properties of the listing\<close>




text \<open>
  C5. getScreenshotFiles fails with the NotFound error exactly when the configured
  directory is absent, and with the Empty error exactly when the directory can be read
  and holds no qualifying image file; in both cases no listing is returned.
\<close>

theorem getScreenshotFiles_failures:
  "(getScreenshotFiles dir = Inl notFoundError \<longleftrightarrow> dir = Absent)
   \<and> (getScreenshotFiles dir = Inl emptyError
        \<longleftrightarrow> (\<exists>names. dir = Entries names \<and> filter isPng names = []))
   \<and> (dir = Absent \<or> (\<exists>names. dir = Entries names \<and> filter isPng names = [])
        \<longrightarrow> (\<forall>files. getScreenshotFiles dir \<noteq> Inr files))"
proof (cases dir)
  case Absent
  then show ?thesis
    by (simp add: getScreenshotFiles_def readdir_def error_code_def notFoundError_def
        emptyError_def screenshotsDir_def)
next
  case NotADirectory
  then show ?thesis
    by (simp add: getScreenshotFiles_def readdir_def error_code_def notFoundError_def
        emptyError_def)
next
  case NoPermission
  then show ?thesis
    by (simp add: getScreenshotFiles_def readdir_def error_code_def notFoundError_def
        emptyError_def)
next
  case (Entries names)
  then show ?thesis
    by (simp add: getScreenshotFiles_Entries notFoundError_def emptyError_def
        screenshotsDir_def)
qed

theorem getScreenshotFiles_failures_witness:
  "getScreenshotFiles Absent = Inl notFoundError
   \<and> getScreenshotFiles (Entries [''notes.txt'', ''cover.jpg'']) = Inl emptyError
   \<and> getScreenshotFiles NoPermission = Inl (SystemError EACCES)"
proof -
  have "filter isPng [''notes.txt'', ''cover.jpg''] = []"
    by (simp add: isPng_def endsWith_def toLowerCase_def toLowerChar_def)
  moreover have "getScreenshotFiles NoPermission = Inl (SystemError EACCES)"
    by (simp add: getScreenshotFiles_def readdir_def error_code_def)
  ultimately show ?thesis
    using getScreenshotFiles_failures [of Absent]
      getScreenshotFiles_failures [of "Entries [''notes.txt'', ''cover.jpg'']"]
    by simp
qed

section \<open>Lemmas on trimming and fences\<close>

lemma dropWhile_snoc_keep:
  assumes "\<not> P x"
  shows "\<exists>zs. dropWhile P (xs @ [x]) = zs @ [x]"
proof (cases "\<forall>y \<in> set xs. P y")
  case True
  then have "dropWhile P (xs @ [x]) = dropWhile P [x]"
    by simp
  with assms show ?thesis by simp
next
  case False
  then obtain y where "y \<in> set xs" "\<not> P y" by blast
  then have "dropWhile P (xs @ [x]) = dropWhile P xs @ [x]"
    by (rule dropWhile_append1)
  then show ?thesis by blast
qed

lemma trim_no_leading_space: "\<not> startsWithSpace (trim s)"
proof (cases "dropWhile isSpace s")
  case Nil
  have "trim s = []" unfolding trim_def Nil by simp
  then show ?thesis by (simp add: startsWithSpace_def)
next
  case (Cons x xs)
  then have x: "\<not> isSpace x"
    by (metis hd_dropWhile list.distinct(1) list.sel(1))
  from dropWhile_snoc_keep [of isSpace x "rev xs"] x obtain zs
    where "dropWhile isSpace (rev xs @ [x]) = zs @ [x]" by blast
  with Cons have "trim s = x # rev zs"
    by (simp add: trim_def)
  with x show ?thesis by (simp add: startsWithSpace_def)
qed

lemma trim_no_trailing_space: "\<not> endsWithSpace (trim s)"
proof (cases "dropWhile isSpace (rev (dropWhile isSpace s))")
  case Nil
  have "trim s = []" unfolding trim_def Nil by simp
  then show ?thesis by (simp add: endsWithSpace_def)
next
  case (Cons x xs)
  then have "\<not> isSpace x"
    by (metis hd_dropWhile list.distinct(1) list.sel(1))
  with Cons show ?thesis by (simp add: trim_def endsWithSpace_def)
qed

lemma stripOpeningFence_suffix: "\<exists>pre. s = pre @ stripOpeningFence s"
proof -
  have h: "\<exists>pre. s = pre @ dropWhile isSpace (drop n s)" for n
    by (metis append_take_drop_id takeWhile_dropWhile_id append.assoc)
  show ?thesis
    using h [of 3] h [of 11] by (auto simp: stripOpeningFence_def Let_def)
qed

lemma dropWhile_no_leading_space: "\<not> startsWithSpace (dropWhile isSpace t)"
  unfolding startsWithSpace_def using hd_dropWhile [of isSpace t] by blast

lemma stripOpeningFence_no_leading_space:
  "\<not> startsWithSpace s \<Longrightarrow> \<not> startsWithSpace (stripOpeningFence s)"
  by (simp add: stripOpeningFence_def Let_def dropWhile_no_leading_space)

lemma stripOpeningFence_no_trailing_space:
  assumes "\<not> endsWithSpace s"
  shows "\<not> endsWithSpace (stripOpeningFence s)"
proof -
  obtain pre where "s = pre @ stripOpeningFence s"
    using stripOpeningFence_suffix by blast
  then have "stripOpeningFence s \<noteq> [] \<Longrightarrow> last s = last (stripOpeningFence s) \<and> s \<noteq> []"
    by (metis last_appendR append_is_Nil_conv)
  with assms show ?thesis
    by (auto simp: endsWithSpace_def)
qed

lemma stripClosingFence_prefix: "\<exists>post. s = stripClosingFence s @ post"
  by (induction s) auto

lemma stripClosingFence_no_leading_space:
  "\<not> startsWithSpace s \<Longrightarrow> \<not> startsWithSpace (stripClosingFence s)"
  by (cases s) (auto simp: startsWithSpace_def)

lemma stripClosingFence_unchanged:
  "\<not> endsWithSpace s \<Longrightarrow> \<not> endsWith s fence \<Longrightarrow> stripClosingFence s = s"
proof (induction s)
  case Nil
  then show ?case by simp
next
  case (Cons c cs)
  have no_match: "\<not> (startsWith (c # cs) fence \<and> list_all isSpace (drop 3 (c # cs)))"
  proof
    assume m: "startsWith (c # cs) fence \<and> list_all isSpace (drop 3 (c # cs))"
    have "drop 3 (c # cs) = []"
    proof (rule ccontr)
      assume ne: "drop 3 (c # cs) \<noteq> []"
      then have "last (drop 3 (c # cs)) = last (c # cs)"
        by (metis append_take_drop_id last_appendR)
      moreover have "isSpace (last (drop 3 (c # cs)))"
        using m ne by (metis last_in_set list_all_iff)
      ultimately show False
        using Cons.prems(1) by (simp add: endsWithSpace_def)
    qed
    with m have "c # cs = fence"
      by (simp add: startsWith_def fence_def)
    then have "endsWith (c # cs) fence"
      by (simp add: endsWith_def)
    with Cons.prems(2) show False by simp
  qed
  have 1: "\<not> endsWithSpace cs"
    using Cons.prems(1) by (auto simp: endsWithSpace_def)
  have 2: "\<not> endsWith cs fence"
  proof
    assume "endsWith cs fence"
    then have "endsWith (c # cs) fence"
      by (auto simp: endsWith_def Suc_diff_le)
    with Cons.prems(2) show False by simp
  qed
  from no_match Cons.IH [OF 1 2] show ?case
    by simp
qed

lemma stripClosingFence_no_fence:
  assumes "\<not> startsWith s fence"
  shows "\<not> startsWith (stripClosingFence s) fence"
proof
  assume a: "startsWith (stripClosingFence s) fence"
  obtain post where p: "s = stripClosingFence s @ post"
    using stripClosingFence_prefix by blast
  from a have t: "take (length fence) (stripClosingFence s) = fence"
    by (simp add: startsWith_def)
  then have "length fence \<le> length (stripClosingFence s)"
    by (metis length_take min.cobounded1)
  with t have "take (length fence) (stripClosingFence s @ post) = fence"
    by simp
  with p have "take (length fence) s = fence"
    by simp
  with assms show False
    by (simp add: startsWith_def)
qed

lemma stripClosingFence_cases:
  "\<not> endsWithSpace s \<Longrightarrow> stripClosingFence s = s \<or> s = stripClosingFence s @ fence"
proof (induction s)
  case Nil
  then show ?case by simp
next
  case (Cons c cs)
  show ?case
  proof (cases "startsWith (c # cs) fence \<and> list_all isSpace (drop 3 (c # cs))")
    case True
    then have e: "stripClosingFence (c # cs) = []" by simp
    have "drop 3 (c # cs) = []"
    proof (rule ccontr)
      assume ne: "drop 3 (c # cs) \<noteq> []"
      then have "last (drop 3 (c # cs)) = last (c # cs)"
        by (metis append_take_drop_id last_appendR)
      moreover have "isSpace (last (drop 3 (c # cs)))"
        using True ne by (metis last_in_set list_all_iff)
      ultimately show False
        using Cons.prems by (simp add: endsWithSpace_def)
    qed
    with True have "c # cs = fence"
      by (simp add: startsWith_def fence_def)
    then show ?thesis
      unfolding e by simp
  next
    case False
    have "\<not> endsWithSpace cs"
      using Cons.prems by (auto simp: endsWithSpace_def)
    from Cons.IH [OF this] False show ?thesis
      by auto
  qed
qed

lemma length_fence: "length fence = 3"
  by (simp add: fence_def)

lemma length_markdown: "length ''markdown'' = 8"
  by simp

lemma dropWhile_spaces:
  assumes "list_all isSpace ws" and "\<not> startsWithSpace rest"
  shows "dropWhile isSpace (ws @ rest) = rest"
proof -
  have "dropWhile isSpace (ws @ rest) = dropWhile isSpace rest"
    using assms(1) by (simp add: list_all_iff)
  also have "\<dots> = rest"
    using assms(2) by (cases rest) (simp_all add: startsWithSpace_def)
  finally show ?thesis .
qed

lemma trim_padded:
  assumes "list_all isSpace ws0" and "list_all isSpace ws2" and "core \<noteq> []"
    and "\<not> startsWithSpace core" and "\<not> endsWithSpace core"
  shows "trim (ws0 @ core @ ws2) = core"
proof -
  have "\<not> startsWithSpace (core @ ws2)"
    using assms(3,4) by (simp add: startsWithSpace_def)
  with assms(1) have 1: "dropWhile isSpace (ws0 @ core @ ws2) = core @ ws2"
    by (rule dropWhile_spaces)
  have 2: "dropWhile isSpace (rev ws2 @ rev core) = rev core"
  proof (rule dropWhile_spaces)
    show "list_all isSpace (rev ws2)" using assms(2) by (simp add: list_all_iff)
    show "\<not> startsWithSpace (rev core)"
      using assms(3,5) by (simp add: startsWithSpace_def endsWithSpace_def hd_rev)
  qed
  show ?thesis
    by (simp add: trim_def 1 2)
qed

lemma stripOpeningFence_after:
  assumes "startsWith s fence" and "drop 3 s = tag @ ws1 @ rest"
    and "list_all isSpace ws1" and "\<not> startsWithSpace rest"
    and "tag = ''markdown'' \<or> tag = [] \<and> \<not> startsWith (ws1 @ rest) ''markdown''"
  shows "stripOpeningFence s = rest"
proof -
  from assms(5) show ?thesis
  proof
    assume t: "tag = ''markdown''"
    have "startsWith (''markdown'' @ ws1 @ rest) ''markdown''"
      "drop 8 (''markdown'' @ ws1 @ rest) = ws1 @ rest"
      by (simp_all add: startsWith_def)
    then show ?thesis
      by (simp add: stripOpeningFence_def assms(1,2) t Let_def dropWhile_spaces [OF assms(3,4)])
  next
    assume "tag = [] \<and> \<not> startsWith (ws1 @ rest) ''markdown''"
    then show ?thesis
      by (simp add: stripOpeningFence_def assms(1,2) Let_def dropWhile_spaces [OF assms(3,4)])
  qed
qed

lemma stripOpeningFence_opener:
  assumes "list_all isSpace ws1" and "\<not> startsWithSpace rest"
    and "tag = ''markdown'' \<or> tag = [] \<and> \<not> startsWith (ws1 @ rest) ''markdown''"
  shows "stripOpeningFence (fence @ tag @ ws1 @ rest) = rest"
proof (rule stripOpeningFence_after [OF _ _ assms])
  show "startsWith (fence @ tag @ ws1 @ rest) fence"
    by (simp add: startsWith_def)
  show "drop 3 (fence @ tag @ ws1 @ rest) = tag @ ws1 @ rest"
    by (simp add: fence_def)
qed

lemma stripClosingFence_closer: "stripClosingFence (body @ fence) = body"
proof (induction body)
  case Nil
  show ?case by (simp add: fence_def startsWith_def)
next
  case (Cons c cs)
  have "length (drop 3 (c # cs @ fence)) = Suc (length cs)"
    by (simp add: length_fence)
  then have ne: "drop 3 (c # cs @ fence) \<noteq> []"
    by auto
  then have "last (drop 3 (c # cs @ fence)) = last (c # cs @ fence)"
    by (metis append_take_drop_id last_appendR)
  also have "\<dots> = CHR 0x60"
    by (simp add: fence_def)
  finally have "\<not> isSpace (last (drop 3 (c # cs @ fence)))"
    by (simp add: isSpace_def)
  with ne have "\<not> list_all isSpace (drop 3 (c # cs @ fence))"
    by (metis last_in_set list_all_iff)
  with Cons show ?case by simp
qed

text \<open>A reply made of white space, an opening fence with or without its tag, white
  space, a body, a closing fence and white space is cleaned to the body.\<close>

lemma cleanup_fenced:
  assumes "list_all isSpace ws0" and "list_all isSpace ws1" and "list_all isSpace ws2"
    and "tag = ''markdown'' \<or> tag = [] \<and> \<not> startsWith (ws1 @ body @ fence) ''markdown''"
    and "\<not> startsWithSpace body"
  shows "cleanup (ws0 @ fence @ tag @ ws1 @ body @ fence @ ws2) = body"
proof -
  let ?core = "fence @ tag @ ws1 @ body @ fence"
  have "?core \<noteq> []" "\<not> startsWithSpace ?core" "\<not> endsWithSpace ?core"
    by (simp_all add: startsWithSpace_def endsWithSpace_def fence_def isSpace_def)
  with assms(1,3) have "trim (ws0 @ ?core @ ws2) = ?core"
    by (intro trim_padded)
  then have t: "trim (ws0 @ fence @ tag @ ws1 @ body @ fence @ ws2) = ?core"
    by simp
  have "\<not> startsWithSpace (body @ fence)"
    using assms(5) by (cases body) (simp_all add: startsWithSpace_def fence_def isSpace_def)
  with assms(2) have "stripOpeningFence (fence @ tag @ ws1 @ (body @ fence)) = body @ fence"
    using assms(4) by (intro stripOpeningFence_opener) simp_all
  then show ?thesis
    by (simp add: cleanup_def t stripClosingFence_closer)
qed

lemma cleanup_unfenced:
  assumes "\<not> startsWith (trim content) fence" and "\<not> endsWith (trim content) fence"
  shows "cleanup content = trim content"
proof -
  have "stripOpeningFence (trim content) = trim content"
    using assms(1) by (simp add: stripOpeningFence_def)
  moreover have "stripClosingFence (trim content) = trim content"
    using trim_no_trailing_space assms(2) by (rule stripClosingFence_unchanged)
  ultimately show ?thesis by (simp add: cleanup_def)
qed

lemma cleanup_trailing_space:
  assumes "endsWithSpace (cleanup content)"
  shows "\<exists>pre. trim content = pre @ cleanup content @ fence"
proof -
  let ?opened = "stripOpeningFence (trim content)"
  have n: "\<not> endsWithSpace ?opened"
    by (intro stripOpeningFence_no_trailing_space trim_no_trailing_space)
  from stripClosingFence_cases [OF n] have "?opened = stripClosingFence ?opened @ fence"
  proof
    assume "stripClosingFence ?opened = ?opened"
    with assms n show ?thesis by (simp add: cleanup_def)
  qed
  moreover obtain pre where "trim content = pre @ ?opened"
    using stripOpeningFence_suffix by blast
  ultimately have "trim content = pre @ cleanup content @ fence"
    by (simp add: cleanup_def)
  then show ?thesis by blast
qed

lemma cleanup_leading_fence:
  assumes "startsWith (cleanup content) fence"
  shows "\<exists>tag ws rest. list_all isSpace ws \<and> (tag = [] \<or> tag = ''markdown'')
           \<and> trim content = fence @ tag @ ws @ fence @ rest"
proof -
  let ?t = "trim content"
  let ?opened = "stripOpeningFence ?t"
  have o: "startsWith ?opened fence"
    using assms stripClosingFence_no_fence [of ?opened] by (auto simp: cleanup_def)
  have t: "startsWith ?t fence"
  proof (rule ccontr)
    assume "\<not> startsWith ?t fence"
    then have "?opened = ?t" by (simp add: stripOpeningFence_def)
    with o \<open>\<not> startsWith ?t fence\<close> show False by simp
  qed
  then have "take 3 ?t = fence"
    by (simp only: startsWith_def length_fence)
  then have t3: "?t = fence @ drop 3 ?t"
    by (metis append_take_drop_id)
  define tag where "tag = (if startsWith (drop 3 ?t) ''markdown'' then ''markdown'' else [])"
  define r' where "r' = (if startsWith (drop 3 ?t) ''markdown'' then drop 8 (drop 3 ?t) else drop 3 ?t)"
  have d: "drop 3 ?t = tag @ r'"
  proof (cases "startsWith (drop 3 ?t) ''markdown''")
    case True
    then have "take 8 (drop 3 ?t) = ''markdown''"
      by (simp only: startsWith_def length_markdown)
    then have "drop 3 ?t = ''markdown'' @ drop 8 (drop 3 ?t)"
      by (metis append_take_drop_id)
    with True show ?thesis by (simp only: tag_def r'_def if_True)
  next
    case False
    then show ?thesis by (simp add: tag_def r'_def)
  qed
  have op: "?opened = dropWhile isSpace r'"
    using t by (simp add: stripOpeningFence_def Let_def r'_def)
  have r: "r' = takeWhile isSpace r' @ ?opened"
    by (simp add: op)
  have "take 3 ?opened = fence"
    using o by (simp only: startsWith_def length_fence)
  then have o3: "?opened = fence @ drop 3 ?opened"
    by (metis append_take_drop_id)
  have "list_all isSpace (takeWhile isSpace r')"
    by (simp add: list_all_iff) (meson set_takeWhileD)
  moreover have "tag = [] \<or> tag = ''markdown''"
    by (simp add: tag_def)
  moreover have "?t = fence @ tag @ takeWhile isSpace r' @ fence @ drop 3 ?opened"
    using t3 d r o3 by metis
  ultimately show ?thesis by blast
qed

lemmas eval_text = fullImagePath_def screenshotsDir_def cleanup_def trim_def
  stripOpeningFence_def startsWith_def endsWith_def fence_def isSpace_def Let_def

lemma ocrAttempt_cases:
  "ocrAttempt w f m =
     (case readFile w (fullImagePath f) of
        Inl e \<Rightarrow> Inl e
      | Inr b \<Rightarrow>
          (case chat w m b of
             Inl e \<Rightarrow> Inl e
           | Inr None \<Rightarrow> Inr None
           | Inr (Some c) \<Rightarrow> if c = [] then Inr None else Inr (Some (cleanup c))))"
  by (simp add: ocrAttempt_def split: sum.splits option.splits)

lemma performOcrOnImage_Inr: "\<exists>r. performOcrOnImage w f m = Inr r"
  by (simp add: performOcrOnImage_def split: sum.splits)

lemma performOcrOnImage_content:
  assumes "readFile w (fullImagePath f) = Inr b" and "chat w m b = Inr (Some c)" and "c \<noteq> []"
  shows "performOcrOnImage w f m = Inr (Some (cleanup c))"
  using assms by (simp add: performOcrOnImage_def ocrAttempt_def)

section \<open>Properties of the Transcriber\<close>

text \<open>
  C2. For every world, image file name and model, performOcrOnImage returns and never
  throws. The result is null when the image file cannot be read, when the service call
  throws (network failure, timeout, decoding) and when the service returns no content;
  otherwise it is the cleaned text.
\<close>

theorem performOcrOnImage_never_throws:
  "(\<exists>r. performOcrOnImage w f m = Inr r)
   \<and> ((\<exists>e. readFile w (fullImagePath f) = Inl e) \<longrightarrow> performOcrOnImage w f m = Inr None)
   \<and> (\<forall>b. readFile w (fullImagePath f) = Inr b \<longrightarrow>
        ((\<exists>e. chat w m b = Inl e) \<longrightarrow> performOcrOnImage w f m = Inr None)
        \<and> (chat w m b = Inr None \<or> chat w m b = Inr (Some [])
             \<longrightarrow> performOcrOnImage w f m = Inr None)
        \<and> (\<forall>c. c \<noteq> [] \<and> chat w m b = Inr (Some c)
             \<longrightarrow> performOcrOnImage w f m = Inr (Some (cleanup c))))"
  by (auto simp: performOcrOnImage_def ocrAttempt_cases split: sum.splits option.splits)

lemma example_reads:
  "readFile exampleWorld (fullImagePath ''1.png'') = Inr ''image one''"
  "readFile exampleWorld (fullImagePath ''2.png'') = Inr ''image two''"
  "readFile exampleWorld (fullImagePath ''3.png'') = Inr ''image three''"
  "readFile exampleWorld (fullImagePath ''9.png'') = Inl (SystemError ENOENT)"
  by (simp_all add: exampleWorld_def fullImagePath_def screenshotsDir_def)

lemma example_chats:
  "chat exampleWorld m ''image one'' = Inr (Some '' Hello\<newline>'')"
  "chat exampleWorld m ''image two'' = Inl (Error ''timeout'')"
  "chat exampleWorld m ''image three'' = Inr (Some ''World'')"
  by (simp_all add: exampleWorld_def)

lemma example_cleanup:
  "cleanup '' Hello\<newline>'' = ''Hello''"
  "cleanup ''World'' = ''World''"
  by (simp_all add: eval_text)

theorem performOcrOnImage_never_throws_witness:
  "performOcrOnImage exampleWorld ''1.png'' ''llava'' = Inr (Some ''Hello'')
   \<and> performOcrOnImage exampleWorld ''2.png'' ''llava'' = Inr None
   \<and> performOcrOnImage exampleWorld ''9.png'' ''llava'' = Inr None"
  using performOcrOnImage_never_throws [of exampleWorld "''1.png''" "''llava''"]
    performOcrOnImage_never_throws [of exampleWorld "''2.png''" "''llava''"]
    performOcrOnImage_never_throws [of exampleWorld "''9.png''" "''llava''"]
  by (simp add: example_reads example_chats example_cleanup)

text \<open>
  C7, as stated, fails. The text is trimmed before the fences are removed, so a fenced
  answer whose closing fence stands on a line of its own comes back ending in a line
  feed; and only one opening fence is removed, so an answer with a second fence after
  the first comes back beginning with a fence.
\<close>

theorem cleaned_text_counterexample:
  "performOcrOnImage fencedWorld ''1.png'' ''llava'' = Inr (Some ''Hello\<newline>'')
   \<and> endsWithSpace ''Hello\<newline>''
   \<and> performOcrOnImage doubleFenceWorld ''1.png'' ''llava'' = Inr (Some (fence @ ''x''))
   \<and> startsWith (fence @ ''x'') fence"
  by (simp add: performOcrOnImage_def ocrAttempt_def fencedWorld_def doubleFenceWorld_def
      exampleWorld_def endsWithSpace_def eval_text)

text \<open>
  C7, amended. For every successful service response the Transcriber returns a text that
  never begins with white space. A response made of white space, an opening fence with
  or without the tag markdown, white space, a body, a closing fence and white space
  comes back as the body alone. A response that, once trimmed, neither begins nor ends
  with a fence comes back trimmed, so it does not end with white space and does not
  begin with a fence. The returned text ends with white space only where a closing
  fence was removed behind it, and begins with a fence only where the response had a
  second fence right after its opening fence.
\<close>

theorem cleaned_text_shape:
  assumes "readFile w (fullImagePath f) = Inr b"
    and "chat w m b = Inr (Some content)"
    and "content \<noteq> []"
  shows "\<exists>r. performOcrOnImage w f m = Inr (Some r)
           \<and> \<not> startsWithSpace r
           \<and> (\<forall>ws0 tag ws1 body ws2.
                 content = ws0 @ fence @ tag @ ws1 @ body @ fence @ ws2
                 \<and> list_all isSpace ws0 \<and> list_all isSpace ws1 \<and> list_all isSpace ws2
                 \<and> (tag = ''markdown''
                      \<or> tag = [] \<and> \<not> startsWith (ws1 @ body @ fence) ''markdown'')
                 \<and> \<not> startsWithSpace body
                 \<longrightarrow> r = body)
           \<and> (\<not> startsWith (trim content) fence \<and> \<not> endsWith (trim content) fence
                 \<longrightarrow> r = trim content \<and> \<not> endsWithSpace r \<and> \<not> startsWith r fence)
           \<and> (endsWithSpace r \<longrightarrow> (\<exists>pre. trim content = pre @ r @ fence))
           \<and> (startsWith r fence
                 \<longrightarrow> (\<exists>tag ws rest. list_all isSpace ws \<and> (tag = [] \<or> tag = ''markdown'')
                        \<and> trim content = fence @ tag @ ws @ fence @ rest))"
proof -
  let ?r = "cleanup content"
  have "performOcrOnImage w f m = Inr (Some ?r)"
    by (rule performOcrOnImage_content [OF assms])
  moreover have "\<not> startsWithSpace ?r"
    unfolding cleanup_def
    by (intro stripClosingFence_no_leading_space stripOpeningFence_no_leading_space
        trim_no_leading_space)
  moreover have "\<forall>ws0 tag ws1 body ws2.
                 content = ws0 @ fence @ tag @ ws1 @ body @ fence @ ws2
                 \<and> list_all isSpace ws0 \<and> list_all isSpace ws1 \<and> list_all isSpace ws2
                 \<and> (tag = ''markdown''
                      \<or> tag = [] \<and> \<not> startsWith (ws1 @ body @ fence) ''markdown'')
                 \<and> \<not> startsWithSpace body
                 \<longrightarrow> ?r = body"
    using cleanup_fenced by blast
  moreover have "\<not> startsWith (trim content) fence \<and> \<not> endsWith (trim content) fence
                 \<longrightarrow> ?r = trim content \<and> \<not> endsWithSpace ?r \<and> \<not> startsWith ?r fence"
    using cleanup_unfenced [of content] trim_no_trailing_space [of content] by auto
  moreover have "endsWithSpace ?r \<longrightarrow> (\<exists>pre. trim content = pre @ ?r @ fence)"
    using cleanup_trailing_space by blast
  moreover have "startsWith ?r fence
                 \<longrightarrow> (\<exists>tag ws rest. list_all isSpace ws \<and> (tag = [] \<or> tag = ''markdown'')
                        \<and> trim content = fence @ tag @ ws @ fence @ rest)"
    using cleanup_leading_fence by blast
  ultimately show ?thesis by blast
qed

theorem cleaned_text_shape_witness:
  "performOcrOnImage paddedFenceWorld ''1.png'' ''llava'' = Inr (Some ''Hello, world.'')"
proof -
  let ?content = "''  '' @ fence @ ''markdown'' @ ''\<newline>\<newline>'' @ ''Hello, world.'' @ fence
                @ ''\<newline>''"
  have r: "readFile paddedFenceWorld (fullImagePath ''1.png'') = Inr ''image one''"
    using example_reads(1) by (simp add: paddedFenceWorld_def)
  have c: "chat paddedFenceWorld ''llava'' ''image one'' = Inr (Some ?content)"
    by (simp add: paddedFenceWorld_def)
  have n: "?content \<noteq> []" by simp
  have shape: "?content = ''  '' @ fence @ ''markdown'' @ ''\<newline>\<newline>'' @ ''Hello, world.'' @ fence
                @ ''\<newline>''
      \<and> list_all isSpace ''  '' \<and> list_all isSpace ''\<newline>\<newline>'' \<and> list_all isSpace ''\<newline>''
      \<and> (''markdown'' = ''markdown''
           \<or> ''markdown'' = [] \<and> \<not> startsWith (''\<newline>\<newline>'' @ ''Hello, world.'' @ fence) ''markdown'')
      \<and> \<not> startsWithSpace ''Hello, world.''"
    by (simp add: isSpace_def startsWithSpace_def)
  from cleaned_text_shape [OF r c n] obtain r
    where "performOcrOnImage paddedFenceWorld ''1.png'' ''llava'' = Inr (Some r)"
      and "\<forall>ws0 tag ws1 body ws2.
                 ?content = ws0 @ fence @ tag @ ws1 @ body @ fence @ ws2
                 \<and> list_all isSpace ws0 \<and> list_all isSpace ws1 \<and> list_all isSpace ws2
                 \<and> (tag = ''markdown''
                      \<or> tag = [] \<and> \<not> startsWith (ws1 @ body @ fence) ''markdown'')
                 \<and> \<not> startsWithSpace body
                 \<longrightarrow> r = body"
    by blast
  with shape show ?thesis by blast
qed

section \<open>Lemmas on the text assembler\<close>

lemma appendPages_writable:
  assumes "writable w" and "ocr_md d = Some old"
  shows "appendPages w files d = (d\<lparr>ocr_md := Some (old @ concat (map (pageChunk w) files))\<rparr>, None)"
  using assms(2)
proof (induction files arbitrary: d old)
  case Nil
  then show ?case by simp
next
  case (Cons f fs)
  obtain r where r: "performOcrOnImage w f (defaultOllamaModel w) = Inr r"
    using performOcrOnImage_Inr by blast
  let ?chunk = "pageChunk w f"
  have chunk: "(case r of Some t \<Rightarrow> t @ blankLine | None \<Rightarrow> failureMarker f) = ?chunk"
    by (simp add: pageChunk_def r split: option.splits)
  let ?d' = "d\<lparr>ocr_md := Some (old @ ?chunk)\<rparr>"
  have step: "appendPages w (f # fs) d = appendPages w fs ?d'"
    using assms(1) Cons.prems by (simp add: r chunk appendMarkdown_def)
  have "ocr_md ?d' = Some (old @ ?chunk)" by simp
  from Cons.IH [OF this] step show ?case by simp
qed

lemma generateMarkdownFile_written:
  assumes "getScreenshotFiles (screenshots w) = Inr files" and "writable w"
  shows "generateMarkdownFile w d
           = d\<lparr>ocr_md := Some (markdownHeader @ concat (map (pageChunk w) files))\<rparr>"
proof -
  have "ocr_md (d\<lparr>ocr_md := Some markdownHeader\<rparr>) = Some markdownHeader" by simp
  from appendPages_writable [OF assms(2) this, of files] assms show ?thesis
    by (simp add: generateMarkdownFile_def writeMarkdown_def)
qed

lemma generateMarkdownFile_not_written:
  assumes "\<not> writable w"
  shows "generateMarkdownFile w d = d"
  using assms by (simp add: generateMarkdownFile_def writeMarkdown_def split: sum.splits)

section \<open>Properties of the text assembler\<close>

text \<open>
  C3. When the listing succeeds and the output file can be written, the text artifact is
  the header followed by one chunk per listed page, in listing order: the text and a
  blank line for a page on which the Transcriber succeeds, the failure marker, which
  contains the file name, for a page on which it returns null; no page ends the run. For
  the pages 1.png, 2.png, 3.png with the results Hello, null, World the artifact is the
  header, then Hello and a blank line, then the marker of 2.png, then World and a blank
  line.
\<close>

theorem generateMarkdownFile_chunks:
  assumes "getScreenshotFiles (screenshots w) = Inr files" and "writable w"
  shows "(\<exists>chunks. ocr_md (generateMarkdownFile w d) = Some (markdownHeader @ concat chunks)
            \<and> length chunks = length files
            \<and> (\<forall>i < length files.
                 (\<forall>t. performOcrOnImage w (files ! i) (defaultOllamaModel w) = Inr (Some t)
                    \<longrightarrow> chunks ! i = t @ blankLine)
                 \<and> (performOcrOnImage w (files ! i) (defaultOllamaModel w) = Inr None
                    \<longrightarrow> chunks ! i = failureMarker (files ! i)
                        \<and> (\<exists>pre post. chunks ! i = pre @ files ! i @ post))))
         \<and> (files = [''1.png'', ''2.png'', ''3.png'']
              \<and> performOcrOnImage w ''1.png'' (defaultOllamaModel w) = Inr (Some ''Hello'')
              \<and> performOcrOnImage w ''2.png'' (defaultOllamaModel w) = Inr None
              \<and> performOcrOnImage w ''3.png'' (defaultOllamaModel w) = Inr (Some ''World'')
            \<longrightarrow> ocr_md (generateMarkdownFile w d)
                  = Some (markdownHeader @ ''Hello\<newline>\<newline>'' @ failureMarker ''2.png''
                          @ ''World\<newline>\<newline>''))"
proof -
  let ?chunks = "map (pageChunk w) files"
  have written: "ocr_md (generateMarkdownFile w d) = Some (markdownHeader @ concat ?chunks)"
    by (simp add: generateMarkdownFile_written [OF assms])
  have marker: "\<exists>pre post. failureMarker f = pre @ f @ post" for f
    unfolding failureMarker_def by (metis append.assoc)
  have each: "(\<forall>t. performOcrOnImage w (files ! i) (defaultOllamaModel w) = Inr (Some t)
                 \<longrightarrow> ?chunks ! i = t @ blankLine)
              \<and> (performOcrOnImage w (files ! i) (defaultOllamaModel w) = Inr None
                 \<longrightarrow> ?chunks ! i = failureMarker (files ! i)
                     \<and> (\<exists>pre post. ?chunks ! i = pre @ files ! i @ post))"
    if "i < length files" for i
    using that marker [of "files ! i"] by (simp add: pageChunk_def)
  have general: "\<exists>chunks. ocr_md (generateMarkdownFile w d) = Some (markdownHeader @ concat chunks)
            \<and> length chunks = length files
            \<and> (\<forall>i < length files.
                 (\<forall>t. performOcrOnImage w (files ! i) (defaultOllamaModel w) = Inr (Some t)
                    \<longrightarrow> chunks ! i = t @ blankLine)
                 \<and> (performOcrOnImage w (files ! i) (defaultOllamaModel w) = Inr None
                    \<longrightarrow> chunks ! i = failureMarker (files ! i)
                        \<and> (\<exists>pre post. chunks ! i = pre @ files ! i @ post)))"
    using written each by (intro exI [of _ ?chunks]) (auto simp: marker)
  have scenario: "ocr_md (generateMarkdownFile w d)
        = Some (markdownHeader @ ''Hello\<newline>\<newline>'' @ failureMarker ''2.png''
                @ ''World\<newline>\<newline>'')"
    if "files = [''1.png'', ''2.png'', ''3.png'']"
      and "performOcrOnImage w ''1.png'' (defaultOllamaModel w) = Inr (Some ''Hello'')"
      and "performOcrOnImage w ''2.png'' (defaultOllamaModel w) = Inr None"
      and "performOcrOnImage w ''3.png'' (defaultOllamaModel w) = Inr (Some ''World'')"
    using written that by (simp add: pageChunk_def blankLine_def)
  from general scenario show ?thesis by blast
qed

lemma example_listing:
  "getScreenshotFiles (screenshots exampleWorld) = Inr [''1.png'', ''2.png'', ''3.png'']"
  by (simp add: exampleWorld_def getScreenshotFiles_Entries comesAfter_numericalSort eval_name
      MAX_SAFE_INTEGER_def)

lemma example_ocr:
  "performOcrOnImage exampleWorld ''1.png'' m = Inr (Some ''Hello'')"
  "performOcrOnImage exampleWorld ''2.png'' m = Inr None"
  "performOcrOnImage exampleWorld ''3.png'' m = Inr (Some ''World'')"
  by (simp_all add: performOcrOnImage_def ocrAttempt_def example_reads example_chats
      example_cleanup)

theorem generateMarkdownFile_chunks_witness:
  "ocr_md (generateMarkdownFile exampleWorld emptyDisk)
     = Some (''# Transcription Results\<newline>\<newline>Hello\<newline>\<newline>''
             @ ''\<newline>\<newline>[OCR Warning/Error for 2.png]\<newline>\<newline>''
             @ ''World\<newline>\<newline>'')"
proof -
  have w: "writable exampleWorld" by (simp add: exampleWorld_def)
  from generateMarkdownFile_chunks [OF example_listing w, of emptyDisk] example_ocr
  show ?thesis
    by (simp add: markdownHeader_def failureMarker_def blankLine_def)
qed

text \<open>
  C9. A second run of the text assembler over the same listing, with the same result of
  the Transcriber for every listed page and the same write permission, leaves the text
  artifact of the first run byte for byte as it was: the run starts by overwriting the
  file with the header.
\<close>

theorem generateMarkdownFile_rerun:
  assumes "getScreenshotFiles (screenshots w) = Inr files"
    and "getScreenshotFiles (screenshots w') = Inr files"
    and "\<forall>f \<in> set files. performOcrOnImage w' f (defaultOllamaModel w')
                           = performOcrOnImage w f (defaultOllamaModel w)"
    and "writable w' = writable w"
  shows "ocr_md (generateMarkdownFile w' (generateMarkdownFile w d))
           = ocr_md (generateMarkdownFile w d)"
proof (cases "writable w")
  case True
  have m: "map (pageChunk w') files = map (pageChunk w) files"
    using assms(3) by (simp add: pageChunk_def)
  have a: "ocr_md (generateMarkdownFile w' d0)
             = Some (markdownHeader @ concat (map (pageChunk w') files))" for d0
    using assms(2,4) True by (simp add: generateMarkdownFile_written)
  have b: "ocr_md (generateMarkdownFile w d)
             = Some (markdownHeader @ concat (map (pageChunk w) files))"
    using assms(1) True by (simp add: generateMarkdownFile_written)
  show ?thesis
    by (simp only: a b m)
next
  case False
  with assms(4) show ?thesis
    by (simp add: generateMarkdownFile_not_written)
qed

theorem generateMarkdownFile_rerun_witness:
  "ocr_md (generateMarkdownFile exampleWorld (generateMarkdownFile exampleWorld emptyDisk))
     = ocr_md (generateMarkdownFile exampleWorld emptyDisk)
   \<and> ocr_md (generateMarkdownFile exampleWorld emptyDisk) \<noteq> None"
proof -
  have w: "writable exampleWorld" by (simp add: exampleWorld_def)
  have "ocr_md (generateMarkdownFile exampleWorld emptyDisk) \<noteq> None"
    by (simp add: generateMarkdownFile_written [OF example_listing w])
  with generateMarkdownFile_rerun [OF example_listing example_listing, of emptyDisk]
  show ?thesis by simp
qed

section \<open>Lemmas on the document assembler\<close>

lemma trim_Nil: "trim [] = []"
  by (simp add: trim_def)


text \<open>What one iteration leaves behind, and from it what the loops and the scripts
  compute.\<close>

lemma leftPage_None_iff: "leftPage w options f = None \<longleftrightarrow> embedded w f = None"
  by (auto simp: leftPage_def Let_def split: option.splits sum.splits)

lemma leftPage_shows:
  assumes "leftPage w options f = Some page"
  shows "\<exists>img. embedded w f = Some img \<and> showsImage page img"
  using assms
  by (auto simp: leftPage_def Let_def showsImage_def addPage_def drawImage_def scale_def
      split: option.splits sum.splits if_splits)

lemma leftPage_texts:
  assumes "leftPage w options f = Some page"
  shows "texts page =
      (case performOcrOnImage w f (ollamaModelForPdf w) of
         Inr (Some t) \<Rightarrow>
           if trim t \<noteq> [] \<and> encodable w (option_font options) t
           then [\<lparr>text_content = t, text_x = option_x options, text_y = option_y options,
                  text_font = option_font options, text_size = option_size options,
                  painted_mode = Fill\<rparr>]
           else []
       | _ \<Rightarrow> [])"
  using assms
  by (auto simp: leftPage_def Let_def addPage_def drawImage_def
      split: option.splits sum.splits if_splits)

lemma tryPage_step:
  "fst (tryPage w invisible f (doc, n)) =
     (case leftPage w \<lparr>option_x = 5, option_y = 5, option_font = Helvetica,
                        option_size = 6, option_renderingMode = invisible\<rparr> f of
        None \<Rightarrow> (doc, n)
      | Some page \<Rightarrow> (doc @ [page], n + 1))"
  using performOcrOnImage_Inr [of w f "ollamaModelForPdf w"]
  by (auto simp: leftPage_def embedded_def drawText_def drawImage_def addPage_def Let_def
      trim_Nil split: sum.splits option.splits)

lemma tryPageIncremental_step:
  "fst (tryPageIncremental w f (doc, n, d)) =
     (case leftPage w \<lparr>option_x = 10, option_y = 10, option_font = TimesRoman,
                        option_size = 8, option_renderingMode = 3\<rparr> f of
        None \<Rightarrow> (doc, n, d)
      | Some page \<Rightarrow>
          (doc @ [page], n + 1,
           if textFits w TimesRoman f \<and> writable w then d\<lparr>out_pdf := Some (doc @ [page])\<rparr>
           else d))"
  using performOcrOnImage_Inr [of w f "ollamaModelForPdf w"]
  by (auto simp: leftPage_def embedded_def drawText_def drawImage_def addPage_def Let_def
      trim_Nil textFits_def writePdf_def split: sum.splits option.splits)

declare tryPage.simps [simp del] tryPageIncremental.simps [simp del]

lemma pdfLoop_eq:
  "pdfLoop w invisible files (doc, n) =
     (doc @ List.map_filter (leftPage w \<lparr>option_x = 5, option_y = 5, option_font = Helvetica,
                        option_size = 6, option_renderingMode = invisible\<rparr>) files,
      n + length (List.map_filter (leftPage w \<lparr>option_x = 5, option_y = 5,
                        option_font = Helvetica, option_size = 6,
                        option_renderingMode = invisible\<rparr>) files))"
proof (induction files arbitrary: doc n)
  case Nil
  then show ?case by simp
next
  case (Cons f fs)
  show ?case
    by (simp add: tryPage_step Cons.IH split: option.splits)
qed

lemma pdfLoopIncremental_eq:
  "\<exists>d'. pdfLoopIncremental w files (doc, n, d) =
           (doc @ List.map_filter (leftPage w \<lparr>option_x = 10, option_y = 10,
                     option_font = TimesRoman, option_size = 8, option_renderingMode = 3\<rparr>) files,
            n + length (List.map_filter (leftPage w \<lparr>option_x = 10, option_y = 10,
                     option_font = TimesRoman, option_size = 8, option_renderingMode = 3\<rparr>) files),
            d')
        \<and> (d' = d
            \<or> (\<exists>k. 0 < k
                 \<and> k \<le> length (List.map_filter (leftPage w \<lparr>option_x = 10, option_y = 10,
                     option_font = TimesRoman, option_size = 8, option_renderingMode = 3\<rparr>) files)
                 \<and> d' = d\<lparr>out_pdf := Some (doc @ take k (List.map_filter (leftPage w
                     \<lparr>option_x = 10, option_y = 10, option_font = TimesRoman, option_size = 8,
                      option_renderingMode = 3\<rparr>) files))\<rparr>))"
  (is "\<exists>d'. ?P files doc n d d'")
proof (induction files arbitrary: doc n d)
  case Nil
  then show ?case by simp
next
  case (Cons f fs)
  let ?o = "\<lparr>option_x = 10, option_y = 10, option_font = TimesRoman, option_size = 8,
             option_renderingMode = 3\<rparr>"
  let ?ps = "List.map_filter (leftPage w ?o) fs"
  show ?case
  proof (cases "leftPage w ?o f")
    case None
    with Cons.IH [of doc n d] show ?thesis
      by (simp add: tryPageIncremental_step)
  next
    case (Some p)
    let ?d1 = "if textFits w TimesRoman f \<and> writable w then d\<lparr>out_pdf := Some (doc @ [p])\<rparr> else d"
    have step: "pdfLoopIncremental w (f # fs) (doc, n, d)
                  = pdfLoopIncremental w fs (doc @ [p], n + 1, ?d1)"
      by (simp add: tryPageIncremental_step Some)
    from Cons.IH [of "doc @ [p]" "n + 1" ?d1] obtain d'
      where run: "pdfLoopIncremental w fs (doc @ [p], n + 1, ?d1)
                    = ((doc @ [p]) @ ?ps, n + 1 + length ?ps, d')"
        and saved: "d' = ?d1
          \<or> (\<exists>k. 0 < k \<and> k \<le> length ?ps \<and> d' = ?d1\<lparr>out_pdf := Some ((doc @ [p]) @ take k ?ps)\<rparr>)"
      by blast
    have pages: "List.map_filter (leftPage w ?o) (f # fs) = p # ?ps"
      by (simp add: Some)
    have "d' = d \<or> (\<exists>k. 0 < k \<and> k \<le> length (p # ?ps)
                        \<and> d' = d\<lparr>out_pdf := Some (doc @ take k (p # ?ps))\<rparr>)"
      using saved
    proof
      assume e: "d' = ?d1"
      show ?thesis
      proof (cases "textFits w TimesRoman f \<and> writable w")
        case True
        with e have "d' = d\<lparr>out_pdf := Some (doc @ take 1 (p # ?ps))\<rparr>" by simp
        then show ?thesis by (intro disjI2 exI [of _ 1]) simp
      next
        case False
        with e show ?thesis by simp
      qed
    next
      assume "\<exists>k. 0 < k \<and> k \<le> length ?ps \<and> d' = ?d1\<lparr>out_pdf := Some ((doc @ [p]) @ take k ?ps)\<rparr>"
      then obtain k where k: "0 < k" "k \<le> length ?ps"
        and e: "d' = ?d1\<lparr>out_pdf := Some ((doc @ [p]) @ take k ?ps)\<rparr>"
        by blast
      have "d' = d\<lparr>out_pdf := Some (doc @ take (Suc k) (p # ?ps))\<rparr>"
        using e by simp
      with k show ?thesis by (intro disjI2 exI [of _ "Suc k"]) simp
    qed
    with step run pages show ?thesis
      by simp
  qed
qed

lemma pdfLoopIncremental_all_fit:
  assumes "writable w" and "\<forall>f \<in> set files. textFits w TimesRoman f"
  shows "pdfLoopIncremental w files (doc, n, d) =
           (doc @ List.map_filter (leftPage w \<lparr>option_x = 10, option_y = 10,
                     option_font = TimesRoman, option_size = 8, option_renderingMode = 3\<rparr>) files,
            n + length (List.map_filter (leftPage w \<lparr>option_x = 10, option_y = 10,
                     option_font = TimesRoman, option_size = 8, option_renderingMode = 3\<rparr>) files),
            if List.map_filter (leftPage w \<lparr>option_x = 10, option_y = 10,
                     option_font = TimesRoman, option_size = 8, option_renderingMode = 3\<rparr>) files = []
            then d
            else d\<lparr>out_pdf := Some (doc @ List.map_filter (leftPage w \<lparr>option_x = 10,
                     option_y = 10, option_font = TimesRoman, option_size = 8,
                     option_renderingMode = 3\<rparr>) files)\<rparr>)"
  using assms(2)
proof (induction files arbitrary: doc n d)
  case Nil
  then show ?case by simp
next
  case (Cons f fs)
  then show ?case
    using assms(1)
    by (simp add: tryPageIncremental_step split: option.splits)
qed

lemma map_filter_all2:
  "list_all2 (\<lambda>y x. g x = Some y) (List.map_filter g xs) (filter (\<lambda>x. g x \<noteq> None) xs)"
  by (induction xs) auto

lemma leftPages_shown:
  "list_all2 (\<lambda>page f. \<exists>img. embedded w f = Some img \<and> showsImage page img)
     (List.map_filter (leftPage w options) files) (filter (\<lambda>f. embedded w f \<noteq> None) files)"
proof -
  have "list_all2 (\<lambda>page f. leftPage w options f = Some page)
          (List.map_filter (leftPage w options) files)
          (filter (\<lambda>f. leftPage w options f \<noteq> None) files)"
    by (rule map_filter_all2)
  then have "list_all2 (\<lambda>page f. leftPage w options f = Some page)
          (List.map_filter (leftPage w options) files) (filter (\<lambda>f. embedded w f \<noteq> None) files)"
    by (simp add: leftPage_None_iff)
  then show ?thesis
    by (rule list_all2_mono) (rule leftPage_shows)
qed

lemma length_filter_less_iff:
  "length (filter P xs) < length xs \<longleftrightarrow> (\<exists>x \<in> set xs. \<not> P x)"
proof
  assume "length (filter P xs) < length xs"
  then have "filter P xs \<noteq> xs" by auto
  then show "\<exists>x \<in> set xs. \<not> P x" by (simp add: filter_id_conv)
next
  assume "\<exists>x \<in> set xs. \<not> P x"
  then show "length (filter P xs) < length xs"
    by (auto intro: length_filter_less)
qed

lemma shown_lengths:
  assumes "list_all2 (\<lambda>page f. \<exists>img. embedded w f = Some img \<and> showsImage page img)
             doc (filter (\<lambda>f. embedded w f \<noteq> None) files)"
  shows "length doc \<le> length files"
    and "length doc < length files \<longleftrightarrow> (\<exists>f \<in> set files. embedded w f = None)"
proof -
  have len: "length doc = length (filter (\<lambda>f. embedded w f \<noteq> None) files)"
    using assms by (rule list_all2_lengthD)
  show "length doc \<le> length files"
    unfolding len by (rule length_filter_le)
  show "length doc < length files \<longleftrightarrow> (\<exists>f \<in> set files. embedded w f = None)"
    unfolding len by (simp add: length_filter_less_iff)
qed

lemma generateSearchablePdf_eq:
  assumes "getScreenshotFiles (screenshots w) = Inr files"
    and "PDFRenderingMode w = Some invisible"
  shows "generateSearchablePdf w d =
           (if writable w
               \<and> List.map_filter (leftPage w \<lparr>option_x = 5, option_y = 5,
                    option_font = Helvetica, option_size = 6,
                    option_renderingMode = invisible\<rparr>) files \<noteq> []
            then d\<lparr>out_pdf := Some (List.map_filter (leftPage w \<lparr>option_x = 5, option_y = 5,
                    option_font = Helvetica, option_size = 6,
                    option_renderingMode = invisible\<rparr>) files)\<rparr>
            else d)"
  using assms by (simp add: generateSearchablePdf_def pdfLoop_eq writePdf_def)

lemma generateSearchablePdf_not_loaded:
  assumes "PDFRenderingMode w = None"
  shows "generateSearchablePdf w d = d"
  using assms by (simp add: generateSearchablePdf_def)

lemma generateSearchablePdfIncremental_saved:
  assumes "getScreenshotFiles (screenshots w) = Inr files"
  shows "generateSearchablePdfIncremental w d = d
         \<or> (\<exists>k. 0 < k
              \<and> k \<le> length (List.map_filter (leftPage w \<lparr>option_x = 10, option_y = 10,
                    option_font = TimesRoman, option_size = 8, option_renderingMode = 3\<rparr>) files)
              \<and> generateSearchablePdfIncremental w d
                  = d\<lparr>out_pdf := Some (take k (List.map_filter (leftPage w \<lparr>option_x = 10,
                    option_y = 10, option_font = TimesRoman, option_size = 8,
                    option_renderingMode = 3\<rparr>) files))\<rparr>)"
  using pdfLoopIncremental_eq [of w files "[]" 0 d] assms
  by (auto simp: generateSearchablePdfIncremental_def)

lemma generateSearchablePdfIncremental_all_fit:
  assumes "getScreenshotFiles (screenshots w) = Inr files"
    and "writable w" and "\<forall>f \<in> set files. textFits w TimesRoman f"
  shows "generateSearchablePdfIncremental w d =
           (if List.map_filter (leftPage w \<lparr>option_x = 10, option_y = 10,
                    option_font = TimesRoman, option_size = 8, option_renderingMode = 3\<rparr>) files = []
            then d
            else d\<lparr>out_pdf := Some (List.map_filter (leftPage w \<lparr>option_x = 10,
                    option_y = 10, option_font = TimesRoman, option_size = 8,
                    option_renderingMode = 3\<rparr>) files)\<rparr>)"
  using assms(1) by (simp add: generateSearchablePdfIncremental_def
      pdfLoopIncremental_all_fit [OF assms(2,3)])

section \<open>Properties of the document assembler\<close>

text \<open>
  C10. In both variants of the document assembler a listed file whose image cannot be
  read or embedded adds no page, and the loop goes on: when the loop ends the document
  holds one page for each listed file that can be read and embedded, in listing order,
  each showing its image. It has at most as many pages as the listing has files, and
  fewer exactly when some listed file cannot be read or embedded. The incremental
  variant has saved nothing or the first pages of that document, and all of them when
  the output file can be written and every transcription fits the font; the variant
  that saves once, where the library lets it load, saves all of them when the output
  file can be written.
\<close>

theorem unreadable_pages_skipped:
  assumes "getScreenshotFiles (screenshots w) = Inr files"
  shows "(\<exists>doc. fst (pdfLoopIncremental w files ([], 0, d)) = doc
            \<and> list_all2 (\<lambda>page f. \<exists>img. embedded w f = Some img \<and> showsImage page img)
                 doc (filter (\<lambda>f. embedded w f \<noteq> None) files)
            \<and> length doc \<le> length files
            \<and> (length doc < length files \<longleftrightarrow> (\<exists>f \<in> set files. embedded w f = None))
            \<and> (generateSearchablePdfIncremental w d = d
                 \<or> (\<exists>k. 0 < k \<and> k \<le> length doc
                      \<and> out_pdf (generateSearchablePdfIncremental w d) = Some (take k doc)))
            \<and> (writable w \<and> doc \<noteq> [] \<and> (\<forall>f \<in> set files. textFits w TimesRoman f)
                 \<longrightarrow> out_pdf (generateSearchablePdfIncremental w d) = Some doc))
         \<and> (\<forall>invisible. PDFRenderingMode w = Some invisible \<longrightarrow>
              (\<exists>doc. fst (pdfLoop w invisible files ([], 0)) = doc
                \<and> list_all2 (\<lambda>page f. \<exists>img. embedded w f = Some img \<and> showsImage page img)
                     doc (filter (\<lambda>f. embedded w f \<noteq> None) files)
                \<and> length doc \<le> length files
                \<and> (length doc < length files \<longleftrightarrow> (\<exists>f \<in> set files. embedded w f = None))
                \<and> (writable w \<and> doc \<noteq> []
                     \<longrightarrow> out_pdf (generateSearchablePdf w d) = Some doc)))"
proof (intro conjI allI impI)
  let ?o = "\<lparr>option_x = 10, option_y = 10, option_font = TimesRoman, option_size = 8,
             option_renderingMode = 3\<rparr>"
  let ?doc = "List.map_filter (leftPage w ?o) files"
  have loop: "fst (pdfLoopIncremental w files ([], 0, d)) = ?doc"
    using pdfLoopIncremental_eq [of w files "[]" 0 d] by auto
  have shown: "list_all2 (\<lambda>page f. \<exists>img. embedded w f = Some img \<and> showsImage page img)
                 ?doc (filter (\<lambda>f. embedded w f \<noteq> None) files)"
    by (rule leftPages_shown)
  have saved: "generateSearchablePdfIncremental w d = d
                 \<or> (\<exists>k. 0 < k \<and> k \<le> length ?doc
                      \<and> out_pdf (generateSearchablePdfIncremental w d) = Some (take k ?doc))"
    using generateSearchablePdfIncremental_saved [OF assms, of d] by auto
  have fit: "writable w \<and> ?doc \<noteq> [] \<and> (\<forall>f \<in> set files. textFits w TimesRoman f)
                 \<longrightarrow> out_pdf (generateSearchablePdfIncremental w d) = Some ?doc"
    by (auto simp: generateSearchablePdfIncremental_all_fit [OF assms])
  show "\<exists>doc. fst (pdfLoopIncremental w files ([], 0, d)) = doc
            \<and> list_all2 (\<lambda>page f. \<exists>img. embedded w f = Some img \<and> showsImage page img)
                 doc (filter (\<lambda>f. embedded w f \<noteq> None) files)
            \<and> length doc \<le> length files
            \<and> (length doc < length files \<longleftrightarrow> (\<exists>f \<in> set files. embedded w f = None))
            \<and> (generateSearchablePdfIncremental w d = d
                 \<or> (\<exists>k. 0 < k \<and> k \<le> length doc
                      \<and> out_pdf (generateSearchablePdfIncremental w d) = Some (take k doc)))
            \<and> (writable w \<and> doc \<noteq> [] \<and> (\<forall>f \<in> set files. textFits w TimesRoman f)
                 \<longrightarrow> out_pdf (generateSearchablePdfIncremental w d) = Some doc)"
    using loop shown shown_lengths [OF shown] saved fit
    by (intro exI [of _ ?doc] conjI)
next
  fix invisible
  assume m: "PDFRenderingMode w = Some invisible"
  let ?o = "\<lparr>option_x = 5, option_y = 5, option_font = Helvetica, option_size = 6,
             option_renderingMode = invisible\<rparr>"
  let ?doc = "List.map_filter (leftPage w ?o) files"
  have loop: "fst (pdfLoop w invisible files ([], 0)) = ?doc"
    by (simp add: pdfLoop_eq)
  have shown: "list_all2 (\<lambda>page f. \<exists>img. embedded w f = Some img \<and> showsImage page img)
                 ?doc (filter (\<lambda>f. embedded w f \<noteq> None) files)"
    by (rule leftPages_shown)
  have saved: "writable w \<and> ?doc \<noteq> [] \<longrightarrow> out_pdf (generateSearchablePdf w d) = Some ?doc"
    by (simp add: generateSearchablePdf_eq [OF assms m])
  show "\<exists>doc. fst (pdfLoop w invisible files ([], 0)) = doc
                \<and> list_all2 (\<lambda>page f. \<exists>img. embedded w f = Some img \<and> showsImage page img)
                     doc (filter (\<lambda>f. embedded w f \<noteq> None) files)
                \<and> length doc \<le> length files
                \<and> (length doc < length files \<longleftrightarrow> (\<exists>f \<in> set files. embedded w f = None))
                \<and> (writable w \<and> doc \<noteq> []
                     \<longrightarrow> out_pdf (generateSearchablePdf w d) = Some doc)"
    using loop shown shown_lengths [OF shown] saved
    by (intro exI [of _ ?doc] conjI)
qed

lemma corrupt_listing:
  "getScreenshotFiles (screenshots corruptWorld) = Inr [''1.png'', ''2.png'', ''3.png'']"
  using example_listing by (simp add: corruptWorld_def)

lemma corrupt_embedded:
  "embedded corruptWorld ''1.png'' = Some \<lparr>png_width = 800, png_height = 600\<rparr>"
  "embedded corruptWorld ''2.png'' = None"
  "embedded corruptWorld ''3.png'' = Some \<lparr>png_width = 800, png_height = 600\<rparr>"
  by (simp_all add: embedded_def corruptWorld_def example_reads)

lemma example_embedded:
  "embedded exampleWorld ''1.png'' = Some \<lparr>png_width = 800, png_height = 600\<rparr>"
  "embedded exampleWorld ''2.png'' = Some \<lparr>png_width = 800, png_height = 600\<rparr>"
  "embedded exampleWorld ''3.png'' = Some \<lparr>png_width = 800, png_height = 600\<rparr>"
  by (simp_all add: embedded_def example_reads) (simp_all add: exampleWorld_def)

lemma corrupt_same:
  "performOcrOnImage corruptWorld f m = performOcrOnImage exampleWorld f m"
  "ollamaModelForPdf corruptWorld = ollamaModelForPdf exampleWorld"
  "writable corruptWorld"
  "encodable corruptWorld = encodable exampleWorld"
  by (simp_all add: performOcrOnImage_def ocrAttempt_def corruptWorld_def
      ollamaModelForPdf_def exampleWorld_def cong: sum.case_cong option.case_cong)

lemma example_trims: "trim ''Hello'' = ''Hello''" "trim ''World'' = ''World''"
  by (simp_all add: trim_def isSpace_def)

lemma example_encodable:
  "encodable exampleWorld fnt ''Hello''" "encodable exampleWorld fnt ''World''"
  "\<not> encodable exampleWorld fnt [CHR ''A'', CHR 0x01, CHR ''B'']"
  by (simp_all add: exampleWorld_def)

lemma example_fits:
  "textFits exampleWorld fnt ''1.png''" "textFits exampleWorld fnt ''2.png''"
  "textFits exampleWorld fnt ''3.png''"
  by (simp_all add: textFits_def example_ocr example_encodable)

lemma corrupt_fits:
  "textFits corruptWorld fnt ''1.png''" "textFits corruptWorld fnt ''2.png''"
  "textFits corruptWorld fnt ''3.png''"
  by (simp_all add: textFits_def corrupt_same example_ocr example_encodable)

theorem unreadable_pages_skipped_witness:
  "(\<exists>doc. out_pdf (generateSearchablePdfIncremental corruptWorld emptyDisk) = Some doc
      \<and> length doc = 2)
   \<and> (\<exists>doc. out_pdf (generateSearchablePdf corruptExportingWorld emptyDisk) = Some doc
      \<and> length doc = 2)"
proof -
  let ?files = "[''1.png'', ''2.png'', ''3.png'']"
  have w: "writable corruptWorld" by (simp add: corruptWorld_def exampleWorld_def)
  have f: "filter (\<lambda>f. embedded corruptWorld f \<noteq> None) ?files = [''1.png'', ''3.png'']"
    by (simp add: corrupt_embedded)
  have fits: "\<forall>f \<in> set ?files. textFits corruptWorld TimesRoman f"
    by (simp add: corrupt_fits)
  from unreadable_pages_skipped [OF corrupt_listing, of emptyDisk] obtain doc
    where shown: "list_all2 (\<lambda>page f. \<exists>img. embedded corruptWorld f = Some img \<and> showsImage page img)
                 doc (filter (\<lambda>f. embedded corruptWorld f \<noteq> None) ?files)"
      and saved: "writable corruptWorld \<and> doc \<noteq> []
                    \<and> (\<forall>f \<in> set ?files. textFits corruptWorld TimesRoman f)
                 \<longrightarrow> out_pdf (generateSearchablePdfIncremental corruptWorld emptyDisk) = Some doc"
    by blast
  have len: "length doc = 2"
    using list_all2_lengthD [OF shown] by (simp only: f) simp
  then have "doc \<noteq> []" by auto
  with saved w fits len
  have 1: "\<exists>doc. out_pdf (generateSearchablePdfIncremental corruptWorld emptyDisk) = Some doc
      \<and> length doc = 2"
    by blast
  have l: "getScreenshotFiles (screenshots corruptExportingWorld) = Inr ?files"
    using corrupt_listing by (simp add: corruptExportingWorld_def)
  have e: "embedded corruptExportingWorld = embedded corruptWorld"
    by (rule ext) (simp add: embedded_def corruptExportingWorld_def cong: sum.case_cong)
  have m: "PDFRenderingMode corruptExportingWorld = Some 3"
    and w': "writable corruptExportingWorld"
    using w by (simp_all add: corruptExportingWorld_def)
  from unreadable_pages_skipped [OF l, of emptyDisk] m obtain doc'
    where shown': "list_all2 (\<lambda>page f. \<exists>img. embedded corruptExportingWorld f = Some img
                      \<and> showsImage page img)
                 doc' (filter (\<lambda>f. embedded corruptExportingWorld f \<noteq> None) ?files)"
      and saved': "writable corruptExportingWorld \<and> doc' \<noteq> []
                 \<longrightarrow> out_pdf (generateSearchablePdf corruptExportingWorld emptyDisk) = Some doc'"
    by blast
  have len': "length doc' = 2"
    using list_all2_lengthD [OF shown'] by (simp only: e f) simp
  then have "doc' \<noteq> []" by auto
  with saved' w' len'
  have 2: "\<exists>doc. out_pdf (generateSearchablePdf corruptExportingWorld emptyDisk) = Some doc
      \<and> length doc = 2"
    by blast
  from 1 2 show ?thesis by blast
qed









text \<open>No iteration of either variant leaves a text that is not painted in the fill
  mode.\<close>

lemma painted_text_is_filled:
  assumes "leftPage w options f = Some page" and "t \<in> set (texts page)"
  shows "painted_mode t = Fill"
  using assms by (auto simp: leftPage_texts split: sum.splits option.splits if_splits)

text \<open>
  C6. The scripts mean the text layer to be invisible: they pass the invisible rendering
  mode to \<open>drawText\<close>. The library does not read that option. In the example world the
  incremental variant saves three pages; the pages whose transcription is not blank
  carry their text at the fixed size and position, painted in the fill mode, and the
  page whose transcription failed carries no text.
\<close>

theorem text_layer_painted_visibly:
  "map_option (map texts) (out_pdf (generateSearchablePdfIncremental exampleWorld emptyDisk))
     = Some [[\<lparr>text_content = ''Hello'', text_x = 10, text_y = 10, text_font = TimesRoman,
               text_size = 8, painted_mode = Fill\<rparr>],
             [],
             [\<lparr>text_content = ''World'', text_x = 10, text_y = 10, text_font = TimesRoman,
               text_size = 8, painted_mode = Fill\<rparr>]]
   \<and> Fill \<noteq> Invisible"
proof -
  have w: "writable exampleWorld" by (simp add: exampleWorld_def)
  have f: "\<forall>f \<in> set [''1.png'', ''2.png'', ''3.png'']. textFits exampleWorld TimesRoman f"
    by (simp add: example_fits)
  show ?thesis
    by (simp add: generateSearchablePdfIncremental_all_fit [OF example_listing w f]
        leftPage_def example_embedded example_ocr example_trims example_encodable Let_def
        drawImage_def addPage_def Fill_def Invisible_def)
qed

section \<open>Start-up of the capture script\<close>

lemma delayMs_not_NaN: "\<not> isNaN (delayMs env)"
  by (simp add: delayMs_def orNumber_def isNaN_def)

lemma inputValidation_missing_target:
  "TARGET_URL env = None \<or> TARGET_URL env = Some [] \<Longrightarrow> inputValidation env = Exit 1"
  by (auto simp: inputValidation_def)

lemma inputValidation_negative_delay:
  "parseInt (envToString (DELAY_MS env)) = Finite n \<Longrightarrow> n < 0 \<Longrightarrow> inputValidation env = Exit 1"
  by (auto simp: inputValidation_def delayMs_def orNumber_def lessThanZero_def
      split: option.splits)

text \<open>
  C8. The start-up check is meant to end the process with status 1 when the target is
  missing or the delay is not a non-negative number. It does so for a missing target and
  for a negative delay. A delay that is not a number never reaches the check: the
  default 1000 has replaced the NaN before, and the script goes on to launch the browser.
\<close>

theorem inputValidation_accepts_non_numeric_delay:
  "parseInt ''abc'' = NaN
   \<and> inputValidation \<lparr>TARGET_URL = Some ''https://example.com/book'', DELAY_MS = Some ''abc''\<rparr>
       = Launch ''https://example.com/book'' (Finite 1000)"
  by (simp add: inputValidation_def delayMs_def orNumber_def isNaN_def lessThanZero_def
      envToString_def parseInt_def isSpace_def isDigit_def)

end
